theory Spec2Isabelle
  imports Main
begin

section \<open>Values, errors and requests\<close>

text \<open>
  The viewset mixins of \<^verbatim>\<open>netbox/api/viewsets/mixins.py\<close> are embedded as pure
  functions. Python values that the mixins inspect (query parameters, JSON payloads) are
  a datatype; every \<^verbatim>\<open>raise\<close> is a value of \<open>error\<close>; the database is an explicit
  state that every writing operation receives and returns.
\<close>

datatype pyval =
    PyNone
  | PyBool bool
  | PyInt int
  | PyStr string
  | PyList "pyval list"
  | PyDict "(string \<times> pyval) list"

type_synonym pydict = "(string \<times> pyval) list"

text \<open>Python truthiness, as \<^verbatim>\<open>if self.brief:\<close> evaluates it.\<close>

fun truthy :: "pyval \<Rightarrow> bool" where
  "truthy PyNone = False"
| "truthy (PyBool b) = b"
| "truthy (PyInt i) = (i \<noteq> 0)"
| "truthy (PyStr s) = (s \<noteq> [])"
| "truthy (PyList xs) = (xs \<noteq> [])"
| "truthy (PyDict d) = (d \<noteq> [])"

datatype error =
    ValidationError
  | Http404
  | ObjectDoesNotExist
  | SerializerNotFound
  | UnboundLocalError
  | KeyError
  | AttributeError
  | OtherError string

text \<open>
  A request: the HTTP method, the query string as the list of its (key, value) pairs in
  URL order, and the parsed body. \<^verbatim>\<open>request.GET\<close> is a multi-valued dictionary whose
  \<^verbatim>\<open>get\<close> and \<^verbatim>\<open>[]\<close> return the last value given for a key.
\<close>

record request =
  request_method :: string
  GET :: "(string \<times> string) list"
  data :: pyval

definition querydict_contains :: "(string \<times> string) list \<Rightarrow> string \<Rightarrow> bool" where
  "querydict_contains q k = (k \<in> set (map fst q))"

definition querydict_get :: "(string \<times> string) list \<Rightarrow> string \<Rightarrow> string option" where
  "querydict_get q k =
     (case filter (\<lambda>kv. fst kv = k) q of
        [] \<Rightarrow> None
      | x # xs \<Rightarrow> Some (snd (last (x # xs))))"

section \<open>BriefModeMixin\<close>

text \<open>
  \<^verbatim>\<open>self.brief = request.method == 'GET' and request.GET.get('brief')\<close>: Python's
  \<^verbatim>\<open>and\<close> yields \<^verbatim>\<open>False\<close> when the comparison fails and the second operand
  otherwise, which is \<^verbatim>\<open>None\<close> for an absent parameter and the string the client
  sent for a present one.
\<close>

definition initialize_request :: "request \<Rightarrow> pyval" where
  "initialize_request req =
     (if request_method req = ''GET''
      then (case querydict_get (GET req) ''brief'' of
              None \<Rightarrow> PyNone
            | Some v \<Rightarrow> PyStr v)
      else PyBool False)"


text \<open>
  A serializer class, as far as the mixins look at it: its class name, the model of its
  \<^verbatim>\<open>Meta\<close> and the names of its fields (the keys of \<^verbatim>\<open>serializer_class().fields\<close>,
  which for a model serializer are the entries of \<^verbatim>\<open>Meta.fields\<close>).
\<close>

record serializer =
  cls_name :: string
  meta_model :: string
  serializer_fields :: "string list"

text \<open>The two serializers of \<^verbatim>\<open>tenancy/api/serializers.py\<close>.\<close>

definition TenantGroupSerializer :: serializer where
  "TenantGroupSerializer =
     \<lparr>cls_name = ''TenantGroupSerializer'', meta_model = ''TenantGroup'',
      serializer_fields = [''id'', ''url'', ''name'', ''slug'', ''parent'', ''description'',
        ''custom_fields'', ''created'', ''last_updated'', ''tenant_count'', ''_depth'']\<rparr>"

definition TenantSerializer :: serializer where
  "TenantSerializer =
     \<lparr>cls_name = ''TenantSerializer'', meta_model = ''Tenant'',
      serializer_fields = [''id'', ''url'', ''name'', ''slug'', ''group'', ''description'', ''comments'',
        ''tags'', ''custom_fields'', ''created'', ''last_updated'', ''circuit_count'',
        ''device_count'', ''ipaddress_count'', ''prefix_count'', ''rack_count'',
        ''site_count'', ''virtualmachine_count'', ''vlan_count'', ''vrf_count'',
        ''cluster_count'']\<rparr>"

text \<open>
  Modelled from the spec: \<^verbatim>\<open>netbox.constants.NESTED_SERIALIZER_PREFIX\<close> is not among
  the sources; the spec calls the lighter serializer the "nested" variant, and the
  constant is the prefix put before the model's name.
\<close>

definition NESTED_SERIALIZER_PREFIX :: string where
  "NESTED_SERIALIZER_PREFIX = ''Nested''"

text \<open>
  A queryset, as far as \<^verbatim>\<open>get_queryset\<close> touches it: the annotations of its query (a
  dictionary, in insertion order), its prefetch lookups, and everything else (model,
  filters, ordering) in \<open>query_rest\<close>.
\<close>

record ('ann, 'q) queryset =
  annotations :: "(string \<times> 'ann) list"
  prefetch_related_lookups :: "string list"
  query_rest :: 'q

text \<open>
  The state of a view that mixes in \<^verbatim>\<open>BriefModeMixin\<close>. \<open>get_serializer_for_model\<close>
  (of \<^verbatim>\<open>utilities.api\<close>) is a parameter: given a model and a prefix it returns the
  serializer class of that name or raises \<^verbatim>\<open>SerializerNotFound\<close>.
  \<open>super_get_queryset\<close> is what \<^verbatim>\<open>super().get_queryset()\<close> returns.
\<close>

record ('ann, 'q) brief_view =
  brief :: pyval
  brief_prefetch_fields :: "string list"
  serializer_class :: serializer
  queryset_model :: string
  get_serializer_for_model :: "string \<Rightarrow> string \<Rightarrow> error + serializer"
  super_get_queryset :: "('ann, 'q) queryset"

definition get_serializer_class :: "('ann, 'q) brief_view \<Rightarrow> error + serializer" where
  "get_serializer_class v =
     (if truthy (brief v)
      then (case get_serializer_for_model v (queryset_model v) NESTED_SERIALIZER_PREFIX of
              Inr nested \<Rightarrow> Inr nested
            | Inl SerializerNotFound \<Rightarrow> Inr (serializer_class v)
            | Inl e \<Rightarrow> Inl e)
      else Inr (serializer_class v))"

text \<open>\<^verbatim>\<open>d.pop(k)\<close> on a dictionary that holds \<open>k\<close>: the dictionary without the key.\<close>

definition dict_pop :: "string \<Rightarrow> (string \<times> 'v) list \<Rightarrow> (string \<times> 'v) list" where
  "dict_pop k d = filter (\<lambda>kv. fst kv \<noteq> k) d"

text \<open>
  The loop \<^verbatim>\<open>for annotation in list(qs.query.annotations.keys())\<close>: the keys are
  copied first, then each one that is not a field of the serializer is popped.
\<close>

fun clear_annotations ::
  "string list \<Rightarrow> string list \<Rightarrow> (string \<times> 'ann) list \<Rightarrow> (string \<times> 'ann) list" where
  "clear_annotations [] flds anns = anns"
| "clear_annotations (annotation # keys) flds anns =
     clear_annotations keys flds
       (if annotation \<notin> set flds then dict_pop annotation anns else anns)"

text \<open>
  \<^verbatim>\<open>prefetch_related(None)\<close> clears the prefetch lookups of a queryset;
  \<^verbatim>\<open>prefetch_related(*lookups)\<close> appends to them.
\<close>

definition prefetch_related_None :: "('ann, 'q) queryset \<Rightarrow> ('ann, 'q) queryset" where
  "prefetch_related_None qs = qs\<lparr>prefetch_related_lookups := []\<rparr>"

definition prefetch_related :: "string list \<Rightarrow> ('ann, 'q) queryset \<Rightarrow> ('ann, 'q) queryset" where
  "prefetch_related lookups qs =
     qs\<lparr>prefetch_related_lookups := prefetch_related_lookups qs @ lookups\<rparr>"

definition get_queryset :: "('ann, 'q) brief_view \<Rightarrow> error + ('ann, 'q) queryset" where
  "get_queryset v =
     (let qs = super_get_queryset v in
      if truthy (brief v)
      then (case get_serializer_class v of
              Inl e \<Rightarrow> Inl e
            | Inr cls \<Rightarrow>
                Inr (prefetch_related (brief_prefetch_fields v)
                      (prefetch_related_None
                        (qs\<lparr>annotations :=
                             clear_annotations (map fst (annotations qs)) (serializer_fields cls)
                               (annotations qs)\<rparr>))))
      else Inr qs)"

section \<open>ExportTemplatesMixin\<close>

record export_template =
  et_content_types :: "string list"
  et_name :: string

text \<open>
  The state of a list view with export templates: the content type of the serializer's
  model, the table of export templates in its default order, the queryset after
  \<^verbatim>\<open>filter_queryset\<close>, the template renderer and the list method of the superclass.
\<close>

record ('obj, 'resp) export_view =
  content_type :: string
  export_templates :: "export_template list"
  filtered_queryset :: "'obj list"
  render_to_response :: "export_template \<Rightarrow> 'obj list \<Rightarrow> 'resp"
  super_list :: "request \<Rightarrow> error + 'resp"

text \<open>\<^verbatim>\<open>QuerySet.first()\<close>: the first row, or \<^verbatim>\<open>None\<close>.\<close>

fun first :: "'a list \<Rightarrow> 'a option" where
  "first [] = None"
| "first (x # xs) = Some x"

definition list :: "('obj, 'resp) export_view \<Rightarrow> request \<Rightarrow> error + 'resp" where
  "list v req =
     (if querydict_contains (GET req) ''export''
      then (case querydict_get (GET req) ''export'' of
              None \<Rightarrow> Inl KeyError
            | Some nm \<Rightarrow>
                (case first (filter (\<lambda>et. content_type v \<in> set (et_content_types et)
                                          \<and> et_name et = nm) (export_templates v)) of
                   None \<Rightarrow> Inl Http404
                 | Some et \<Rightarrow> Inr (render_to_response v et (filtered_queryset v))))
      else super_list v req)"


section \<open>Transactions, responses and the host viewset\<close>

text \<open>
  A database operation takes the state of the database and returns its result, an error
  for a raised exception, together with the state it leaves. \<^verbatim>\<open>transaction.atomic\<close>,
  as a decorator or as a \<^verbatim>\<open>with\<close> block, commits the state of its body when the body
  returns and restores the state at entry when an exception leaves the body; the
  exception propagates.
\<close>

definition atomic :: "('db \<Rightarrow> (error + 'a) \<times> 'db) \<Rightarrow> 'db \<Rightarrow> (error + 'a) \<times> 'db" where
  "atomic body db =
     (case body db of
        (Inl e, db') \<Rightarrow> (Inl e, db)
      | (Inr r, db') \<Rightarrow> (Inr r, db'))"

datatype 'rep body = NoBody | Single 'rep | Array "'rep list"

datatype ('rep, 'hdr) response =
  Response (body: "'rep body") (status: nat) (headers: "'hdr option")

definition HTTP_200_OK :: nat where "HTTP_200_OK = 200"
definition HTTP_201_CREATED :: nat where "HTTP_201_CREATED = 201"
definition HTTP_204_NO_CONTENT :: nat where "HTTP_204_NO_CONTENT = 204"

text \<open>
  What the write mixins call on \<^verbatim>\<open>self\<close> and on the objects, supplied by the viewset
  they are mixed into:
  \<^item> \<open>self_get_queryset\<close>, \<open>self_queryset\<close>: the rows that \<^verbatim>\<open>self.get_queryset()\<close>
    and \<^verbatim>\<open>self.queryset\<close> yield on a database, in the queryset's order;
  \<^item> \<open>pk\<close>: the primary key of an object (\<^verbatim>\<open>obj.id\<close>, \<^verbatim>\<open>obj.pk\<close>);
  \<^item> \<open>has_snapshot\<close>, \<open>snapshot\<close>: \<^verbatim>\<open>hasattr(obj, 'snapshot')\<close> and
    \<^verbatim>\<open>obj.snapshot()\<close>, which records the object's state on the object itself;
  \<^item> \<open>is_valid\<close>: \<^verbatim>\<open>self.get_serializer(instance, data=data, partial=partial).is_valid()\<close>,
    with no instance for a creation; validation may read the database;
  \<^item> \<open>perform_create\<close>, \<open>perform_update\<close>, \<open>perform_destroy\<close>: the saving and
    deleting methods; each may write and may raise after having written;
  \<^item> \<open>serializer_data\<close>: \<^verbatim>\<open>serializer.data\<close> of the saved instance;
  \<^item> \<open>get_success_headers\<close> and \<open>super_create\<close> of the superclass.
\<close>

record ('db, 'obj, 'rep, 'hdr) viewset =
  self_get_queryset :: "'db \<Rightarrow> 'obj list"
  self_queryset :: "'db \<Rightarrow> 'obj list"
  pk :: "'obj \<Rightarrow> int"
  has_snapshot :: "'obj \<Rightarrow> bool"
  snapshot :: "'obj \<Rightarrow> 'obj"
  is_valid :: "'db \<Rightarrow> 'obj option \<Rightarrow> pyval \<Rightarrow> bool \<Rightarrow> bool"
  perform_create :: "'db \<Rightarrow> pyval \<Rightarrow> (error + 'obj) \<times> 'db"
  perform_update :: "'db \<Rightarrow> 'obj \<Rightarrow> pyval \<Rightarrow> bool \<Rightarrow> (error + 'obj) \<times> 'db"
  perform_destroy :: "'db \<Rightarrow> 'obj \<Rightarrow> (error + unit) \<times> 'db"
  serializer_data :: "'db \<Rightarrow> 'obj \<Rightarrow> 'rep"
  get_success_headers :: "'rep \<Rightarrow> 'hdr"
  super_create :: "request \<Rightarrow> 'db \<Rightarrow> (error + ('rep, 'hdr) response) \<times> 'db"

section \<open>SequentialBulkCreatesMixin\<close>

text \<open>
  The loop of \<^verbatim>\<open>create\<close>. Besides \<^verbatim>\<open>return_data\<close> it carries the local variable
  \<^verbatim>\<open>serializer\<close>, of which only \<^verbatim>\<open>serializer.data\<close> is read after the loop: \<open>None\<close>
  while the variable is unbound.
\<close>

fun create_loop ::
  "('db, 'obj, 'rep, 'hdr) viewset \<Rightarrow> pyval list \<Rightarrow> 'rep list \<Rightarrow> 'rep option \<Rightarrow> 'db
     \<Rightarrow> (error + 'rep list \<times> 'rep option) \<times> 'db" where
  "create_loop v [] return_data serializer db = (Inr (return_data, serializer), db)"
| "create_loop v (d # rest) return_data serializer db =
     (if \<not> is_valid v db None d False then (Inl ValidationError, db)
      else (case perform_create v db d of
              (Inl e, db') \<Rightarrow> (Inl e, db')
            | (Inr inst, db') \<Rightarrow>
                create_loop v rest (return_data @ [serializer_data v db' inst])
                  (Some (serializer_data v db' inst)) db'))"

definition create ::
  "('db, 'obj, 'rep, 'hdr) viewset \<Rightarrow> request \<Rightarrow> 'db
     \<Rightarrow> (error + ('rep, 'hdr) response) \<times> 'db" where
  "create v req =
     atomic (\<lambda>db.
       case data req of
         PyList items \<Rightarrow>
           (case create_loop v items [] None db of
              (Inl e, db') \<Rightarrow> (Inl e, db')
            | (Inr (return_data, serializer), db') \<Rightarrow>
                (case serializer of
                   None \<Rightarrow> (Inl UnboundLocalError, db')
                 | Some sd \<Rightarrow>
                     (Inr (Response (Array return_data) HTTP_201_CREATED
                            (Some (get_success_headers v sd))), db')))
       | _ \<Rightarrow> super_create v req db)"

section \<open>BulkUpdateModelMixin and BulkDestroyModelMixin\<close>

text \<open>
  Modelled from the spec: \<^verbatim>\<open>netbox.api.serializers.BulkOperationSerializer\<close> is not
  among the sources. The spec has it validate a list of \<^verbatim>\<open>{id, ...}\<close> payloads, each
  specifying the numeric id of an object: with \<^verbatim>\<open>many=True\<close> the payload is valid when
  it is a list of dictionaries that each carry an integer \<^verbatim>\<open>id\<close>, and
  \<^verbatim>\<open>serializer.data\<close> then holds those ids in payload order; otherwise
  \<^verbatim>\<open>is_valid(raise_exception=True)\<close> raises a validation error.
\<close>

fun bulk_operation_id :: "pyval \<Rightarrow> int option" where
  "bulk_operation_id (PyDict d) =
     (case map_of d ''id'' of Some (PyInt i) \<Rightarrow> Some i | _ \<Rightarrow> None)"
| "bulk_operation_id _ = None"

fun bulk_operation_ids :: "pyval list \<Rightarrow> error + int list" where
  "bulk_operation_ids [] = Inr []"
| "bulk_operation_ids (x # xs) =
     (case bulk_operation_id x of
        None \<Rightarrow> Inl ValidationError
      | Some i \<Rightarrow>
          (case bulk_operation_ids xs of
             Inl e \<Rightarrow> Inl e
           | Inr ids \<Rightarrow> Inr (i # ids)))"

definition BulkOperationSerializer :: "pyval \<Rightarrow> error + int list" where
  "BulkOperationSerializer d =
     (case d of
        PyList items \<Rightarrow> bulk_operation_ids items
      | _ \<Rightarrow> Inl ValidationError)"

text \<open>
  \<^verbatim>\<open>update_data = {obj.pop('id'): obj for obj in request.data}\<close>: a dictionary from the
  popped id to the rest of the item; a later item with the same id replaces an earlier
  one. The error branches are those of \<^verbatim>\<open>pop\<close> on an item without the key or on a
  value that is no dictionary.
\<close>

fun map_update_data ::
  "pyval list \<Rightarrow> (pyval \<rightharpoonup> pyval) \<Rightarrow> error + (pyval \<rightharpoonup> pyval)" where
  "map_update_data [] m = Inr m"
| "map_update_data (PyDict d # rest) m =
     (case map_of d ''id'' of
        None \<Rightarrow> Inl KeyError
      | Some i \<Rightarrow> map_update_data rest (m(i \<mapsto> PyDict (dict_pop ''id'' d))))"
| "map_update_data (_ # rest) m = Inl AttributeError"

text \<open>\<^verbatim>\<open>update_data.get(obj.id)\<close>: \<^verbatim>\<open>None\<close> for an id that is no key.\<close>

definition update_data_get :: "(pyval \<rightharpoonup> pyval) \<Rightarrow> int \<Rightarrow> pyval" where
  "update_data_get update_data i =
     (case update_data (PyInt i) of None \<Rightarrow> PyNone | Some d \<Rightarrow> d)"

definition take_snapshot :: "('db, 'obj, 'rep, 'hdr) viewset \<Rightarrow> 'obj \<Rightarrow> 'obj" where
  "take_snapshot v obj = (if has_snapshot v obj then snapshot v obj else obj)"

fun bulk_update_loop ::
  "('db, 'obj, 'rep, 'hdr) viewset \<Rightarrow> (pyval \<rightharpoonup> pyval) \<Rightarrow> bool \<Rightarrow> 'obj list \<Rightarrow> 'rep list
     \<Rightarrow> 'db \<Rightarrow> (error + 'rep list) \<times> 'db" where
  "bulk_update_loop v update_data partial [] data_list db = (Inr data_list, db)"
| "bulk_update_loop v update_data partial (obj # rest) data_list db =
     (let d = update_data_get update_data (pk v obj);
          obj' = take_snapshot v obj
      in if \<not> is_valid v db (Some obj') d partial then (Inl ValidationError, db)
         else (case perform_update v db obj' d partial of
                 (Inl e, db') \<Rightarrow> (Inl e, db')
               | (Inr inst, db') \<Rightarrow>
                   bulk_update_loop v update_data partial rest
                     (data_list @ [serializer_data v db' inst]) db'))"

text \<open>
  \<open>objects\<close> is a lazy queryset: it is evaluated when the loop starts to iterate it,
  inside the transaction.
\<close>

definition perform_bulk_update ::
  "('db, 'obj, 'rep, 'hdr) viewset \<Rightarrow> ('db \<Rightarrow> 'obj list) \<Rightarrow> (pyval \<rightharpoonup> pyval) \<Rightarrow> bool \<Rightarrow> 'db
     \<Rightarrow> (error + 'rep list) \<times> 'db" where
  "perform_bulk_update v objects update_data partial =
     atomic (\<lambda>db. bulk_update_loop v update_data partial (objects db) [] db)"

definition get_bulk_update_queryset ::
  "('db, 'obj, 'rep, 'hdr) viewset \<Rightarrow> 'db \<Rightarrow> 'obj list" where
  "get_bulk_update_queryset v = self_get_queryset v"

text \<open>\<^verbatim>\<open>qs.filter(pk__in=ids)\<close>: the rows of the queryset whose key is among the ids.\<close>

definition filter_pk_in ::
  "('db, 'obj, 'rep, 'hdr) viewset \<Rightarrow> int list \<Rightarrow> 'obj list \<Rightarrow> 'obj list" where
  "filter_pk_in v ids qs = filter (\<lambda>obj. pk v obj \<in> set ids) qs"

text \<open>
  The items that \<^verbatim>\<open>for obj in request.data\<close> iterates. The comprehension runs after
  the payload has been validated, when \<^verbatim>\<open>request.data\<close> is a list.
\<close>

definition request_items :: "request \<Rightarrow> pyval list" where
  "request_items req = (case data req of PyList items \<Rightarrow> items | _ \<Rightarrow> [])"

definition bulk_update ::
  "('db, 'obj, 'rep, 'hdr) viewset \<Rightarrow> request \<Rightarrow> bool \<Rightarrow> 'db
     \<Rightarrow> (error + ('rep, 'hdr) response) \<times> 'db" where
  "bulk_update v req partial db =
     (case BulkOperationSerializer (data req) of
        Inl e \<Rightarrow> (Inl e, db)
      | Inr ids \<Rightarrow>
          (case map_update_data (request_items req) Map.empty of
             Inl e \<Rightarrow> (Inl e, db)
           | Inr update_data \<Rightarrow>
               (case perform_bulk_update v
                       (\<lambda>db. filter_pk_in v ids (get_bulk_update_queryset v db))
                       update_data partial db of
                  (Inl e, db') \<Rightarrow> (Inl e, db')
                | (Inr data_list, db') \<Rightarrow>
                    (Inr (Response (Array data_list) HTTP_200_OK None), db'))))"

definition bulk_partial_update ::
  "('db, 'obj, 'rep, 'hdr) viewset \<Rightarrow> request \<Rightarrow> 'db
     \<Rightarrow> (error + ('rep, 'hdr) response) \<times> 'db" where
  "bulk_partial_update v req = bulk_update v req True"

fun bulk_destroy_loop ::
  "('db, 'obj, 'rep, 'hdr) viewset \<Rightarrow> 'obj list \<Rightarrow> 'db \<Rightarrow> (error + unit) \<times> 'db" where
  "bulk_destroy_loop v [] db = (Inr (), db)"
| "bulk_destroy_loop v (obj # rest) db =
     (case perform_destroy v db (take_snapshot v obj) of
        (Inl e, db') \<Rightarrow> (Inl e, db')
      | (Inr u, db') \<Rightarrow> bulk_destroy_loop v rest db')"

definition perform_bulk_destroy ::
  "('db, 'obj, 'rep, 'hdr) viewset \<Rightarrow> ('db \<Rightarrow> 'obj list) \<Rightarrow> 'db \<Rightarrow> (error + unit) \<times> 'db" where
  "perform_bulk_destroy v objects =
     atomic (\<lambda>db. bulk_destroy_loop v (objects db) db)"

definition get_bulk_destroy_queryset ::
  "('db, 'obj, 'rep, 'hdr) viewset \<Rightarrow> 'db \<Rightarrow> 'obj list" where
  "get_bulk_destroy_queryset v = self_get_queryset v"

definition bulk_destroy ::
  "('db, 'obj, 'rep, 'hdr) viewset \<Rightarrow> request \<Rightarrow> 'db
     \<Rightarrow> (error + ('rep, 'hdr) response) \<times> 'db" where
  "bulk_destroy v req db =
     (case BulkOperationSerializer (data req) of
        Inl e \<Rightarrow> (Inl e, db)
      | Inr ids \<Rightarrow>
          (case perform_bulk_destroy v
                  (\<lambda>db. filter_pk_in v ids (get_bulk_destroy_queryset v db)) db of
             (Inl e, db') \<Rightarrow> (Inl e, db')
           | (Inr u, db') \<Rightarrow> (Inr (Response NoBody HTTP_204_NO_CONTENT None), db')))"

section \<open>ObjectValidationMixin\<close>

datatype 'obj instance_arg = Instance 'obj | Instances "'obj list"

definition validate_objects ::
  "('db, 'obj, 'rep, 'hdr) viewset \<Rightarrow> 'db \<Rightarrow> 'obj instance_arg \<Rightarrow> error + unit" where
  "validate_objects v db instance =
     (case instance of
        Instances objs \<Rightarrow>
          (let conforming_count =
                 length (filter_pk_in v (map (pk v) objs) (self_queryset v db))
           in if conforming_count \<noteq> length objs then Inl ObjectDoesNotExist else Inr ())
      | Instance obj \<Rightarrow>
          (if \<not> (filter (\<lambda>row. pk v row = pk v obj) (self_queryset v db) \<noteq> [])
           then Inl ObjectDoesNotExist else Inr ()))"


section \<open>Example views\<close>

text \<open>
  Concrete views on which the mixins are evaluated. The tenant view uses the
  \<open>TenantSerializer\<close> above. The lookup function given to a view knows one nested
  serializer, that of the tenant: either one with the four identifying fields of a
  tenant, or one that also declares a \<open>display\<close> field, which \<open>TenantSerializer\<close>
  does not have. The widget view is a view of a model for which no nested serializer is
  defined, as the \<^verbatim>\<open>except\<close> branch of \<^verbatim>\<open>get_serializer_class\<close> expects of some
  models.
\<close>

definition NestedTenantSerializer_example :: serializer where
  "NestedTenantSerializer_example =
     \<lparr>cls_name = ''NestedTenantSerializer'', meta_model = ''Tenant'',
      serializer_fields = [''id'', ''url'', ''name'', ''slug'']\<rparr>"





definition tenant_nested_serializers :: "string \<Rightarrow> string \<Rightarrow> error + serializer" where
  "tenant_nested_serializers model prefix =
     (if model = ''Tenant'' \<and> prefix = ''Nested'' then Inr NestedTenantSerializer_example
      else Inl SerializerNotFound)"

definition tenant_view ::
  "pyval \<Rightarrow> (string \<Rightarrow> string \<Rightarrow> error + serializer) \<Rightarrow> (string, unit) brief_view" where
  "tenant_view b lookup =
     \<lparr>brief = b, brief_prefetch_fields = [''group''], serializer_class = TenantSerializer,
      queryset_model = ''Tenant'', get_serializer_for_model = lookup,
      super_get_queryset =
        \<lparr>annotations = [(''device_count'', ''Count(devices)''), (''name'', ''Lower(name)''),
                        (''site_count'', ''Count(sites)'')],
         prefetch_related_lookups = [''group'', ''tags''], query_rest = ()\<rparr>\<rparr>"

text \<open>
  A list view of tenants with two export templates, and a viewset of sites over a table of
  (id, name) rows: a site is valid when its name is not empty and not taken, creation
  appends a row with the next id, an update renames the row, and a site named
  \<open>protected\<close> cannot be deleted.
\<close>

definition tenant_export_view :: "(string, string \<times> string list) export_view" where
  "tenant_export_view =
     \<lparr>content_type = ''tenancy.tenant'',
      export_templates =
        [\<lparr>et_content_types = [''dcim.site''], et_name = ''csv''\<rparr>,
         \<lparr>et_content_types = [''dcim.site'', ''tenancy.tenant''], et_name = ''summary''\<rparr>],
      filtered_queryset = [''acme'', ''initech''],
      render_to_response = (\<lambda>et rows. (et_name et, rows)),
      super_list = (\<lambda>req. Inr (''list'', [''acme'', ''initech'']))\<rparr>"

type_synonym site = "int \<times> string"

definition site_name :: "pyval \<Rightarrow> string option" where
  "site_name d =
     (case d of
        PyDict kv \<Rightarrow> (case map_of kv ''name'' of Some (PyStr n) \<Rightarrow> Some n | _ \<Rightarrow> None)
      | _ \<Rightarrow> None)"

definition sites :: "(site list, site, pydict, string) viewset" where
  "sites =
     \<lparr>self_get_queryset = (\<lambda>db. db),
      self_queryset = (\<lambda>db. db),
      pk = fst,
      has_snapshot = (\<lambda>obj. True),
      snapshot = (\<lambda>obj. obj),
      is_valid = (\<lambda>db inst d partial.
        case site_name d of
          None \<Rightarrow> False
        | Some n \<Rightarrow> n \<noteq> [] \<and> n \<notin> set (map snd db)),
      perform_create = (\<lambda>db d.
        case site_name d of
          None \<Rightarrow> (Inl (OtherError ''no name''), db)
        | Some n \<Rightarrow> (Inr (int (length db) + 1, n), db @ [(int (length db) + 1, n)])),
      perform_update = (\<lambda>db obj d partial.
        case site_name d of
          None \<Rightarrow> (Inl (OtherError ''no name''), db)
        | Some n \<Rightarrow> (Inr (fst obj, n), map (\<lambda>row. if fst row = fst obj then (fst obj, n) else row) db)),
      perform_destroy = (\<lambda>db obj.
        if snd obj = ''protected'' then (Inl (OtherError ''protected''), db)
        else (Inr (), filter (\<lambda>row. fst row \<noteq> fst obj) db)),
      serializer_data = (\<lambda>db obj. [(''id'', PyInt (fst obj)), (''name'', PyStr (snd obj))]),
      get_success_headers = (\<lambda>rep. ''Location''),
      super_create = (\<lambda>req db. (Inl (OtherError ''single''), db))\<rparr>"

text \<open>
  The viewset of sites with a queryset that joins a relation with two matches for every
  site, and so yields every row twice.
\<close>

definition sites_joined :: "(site list, site, pydict, string) viewset" where
  "sites_joined = sites\<lparr>self_queryset := (\<lambda>db. concat (map (\<lambda>row. [row, row]) db))\<rparr>"

text \<open>A table of two sites and the requests sent to the viewset of sites.\<close>

definition sites_table :: "site list" where
  "sites_table = [(1, ''a''), (2, ''b'')]"

definition patch_request :: request where
  "patch_request =
     \<lparr>request_method = ''PATCH'', GET = [],
      data = PyList [PyDict [(''id'', PyInt 1), (''name'', PyStr ''x'')],
                     PyDict [(''id'', PyInt 2), (''name'', PyStr [])]]\<rparr>"

definition delete_request :: request where
  "delete_request =
     \<lparr>request_method = ''DELETE'', GET = [],
      data = PyList [PyDict [(''id'', PyInt 1)], PyDict [(''id'', PyInt 3)]]\<rparr>"

definition post_request :: "string \<Rightarrow> string \<Rightarrow> request" where
  "post_request n1 n2 =
     \<lparr>request_method = ''POST'', GET = [],
      data = PyList [PyDict [(''name'', PyStr n1)], PyDict [(''name'', PyStr n2)]]\<rparr>"

text \<open>The id that a representation of a site carries.\<close>

definition representation_id :: "pydict \<Rightarrow> int" where
  "representation_id rep = (case map_of rep ''id'' of Some (PyInt i) \<Rightarrow> i | _ \<Rightarrow> 0)"

definition rename_request :: "(int \<times> string) list \<Rightarrow> request" where
  "rename_request renames =
     \<lparr>request_method = ''PATCH'', GET = [],
      data = PyList (map (\<lambda>(i, n). PyDict [(''id'', PyInt i), (''name'', PyStr n)]) renames)\<rparr>"

section \<open>Properties of BriefModeMixin\<close>

lemma querydict_get_Some_iff:
  "(\<exists>v. querydict_get q k = Some v) \<longleftrightarrow> querydict_contains q k"
proof -
  have "filter (\<lambda>kv. fst kv = k) q \<noteq> [] \<longleftrightarrow> k \<in> set (map fst q)"
    by (induction q) auto
  then show ?thesis
    by (auto simp: querydict_get_def querydict_contains_def split: list.splits)
qed

text \<open>
  C10: brief mode is active exactly for a GET request whose \<^verbatim>\<open>brief\<close> parameter is
  present with a non-empty value. In particular \<^verbatim>\<open>brief=false\<close> and \<^verbatim>\<open>brief=0\<close>
  activate it, and a POST request, an empty value or an absent parameter do not.
\<close>

theorem brief_mode_activation:
  "(truthy (initialize_request req) \<longleftrightarrow>
      request_method req = ''GET''
      \<and> (\<exists>v. querydict_get (GET req) ''brief'' = Some v \<and> v \<noteq> []))
   \<and> truthy (initialize_request
        \<lparr>request_method = ''GET'', GET = [(''brief'', ''false'')], data = d\<rparr>)
   \<and> truthy (initialize_request
        \<lparr>request_method = ''GET'', GET = [(''brief'', ''0'')], data = d\<rparr>)
   \<and> \<not> truthy (initialize_request
        \<lparr>request_method = ''POST'', GET = [(''brief'', ''true'')], data = d\<rparr>)
   \<and> \<not> truthy (initialize_request
        \<lparr>request_method = ''GET'', GET = [(''brief'', [])], data = d\<rparr>)
   \<and> \<not> truthy (initialize_request \<lparr>request_method = ''GET'', GET = [], data = d\<rparr>)"
  by (auto simp: initialize_request_def querydict_get_def split: option.splits)




lemma clear_annotations_filter:
  "clear_annotations keys flds anns =
     filter (\<lambda>kv. fst kv \<notin> set keys \<or> fst kv \<in> set flds) anns"
proof (induction keys arbitrary: anns)
  case Nil
  then show ?case by simp
next
  case (Cons a keys)
  show ?case
    by (auto simp: Cons.IH dict_pop_def intro!: filter_cong)
qed

lemma clear_annotations_own_keys:
  "clear_annotations (map fst anns) flds anns = filter (\<lambda>kv. fst kv \<in> set flds) anns"
  unfolding clear_annotations_filter by (rule filter_cong) auto

text \<open>
  C7: in brief mode \<^verbatim>\<open>get_queryset\<close> returns the queryset of the superclass with
  exactly the annotations whose names are fields of the selected serializer kept (in
  their order), with the prefetch lookups replaced by \<^verbatim>\<open>brief_prefetch_fields\<close>, and
  with everything else as it was; an error of the serializer lookup propagates. Outside
  brief mode the queryset is returned unchanged.
\<close>

theorem brief_get_queryset_frame:
  "(truthy (brief v) \<longrightarrow>
      (case get_serializer_class v of
         Inl e \<Rightarrow> get_queryset v = Inl e
       | Inr cls \<Rightarrow>
           get_queryset v =
             Inr ((super_get_queryset v)
                   \<lparr>annotations := filter (\<lambda>kv. fst kv \<in> set (serializer_fields cls))
                                     (annotations (super_get_queryset v)),
                    prefetch_related_lookups := brief_prefetch_fields v\<rparr>)))
   \<and> (\<not> truthy (brief v) \<longrightarrow> get_queryset v = Inr (super_get_queryset v))"
  by (simp add: get_queryset_def Let_def clear_annotations_own_keys prefetch_related_def
      prefetch_related_None_def split: sum.splits)

theorem brief_get_queryset_frame_witness:
  "get_queryset (tenant_view (PyStr ''1'') tenant_nested_serializers)
     = Inr \<lparr>annotations = [(''name'', ''Lower(name)'')],
            prefetch_related_lookups = [''group''], query_rest = ()\<rparr>
   \<and> get_queryset (tenant_view PyNone tenant_nested_serializers)
     = Inr \<lparr>annotations = [(''device_count'', ''Count(devices)''), (''name'', ''Lower(name)''),
                           (''site_count'', ''Count(sites)'')],
            prefetch_related_lookups = [''group'', ''tags''], query_rest = ()\<rparr>"
proof -
  let ?v = "tenant_view (PyStr ''1'') tenant_nested_serializers"
  let ?w = "tenant_view PyNone tenant_nested_serializers"
  have c: "get_serializer_class ?v = Inr NestedTenantSerializer_example"
    by (simp add: get_serializer_class_def tenant_view_def tenant_nested_serializers_def
        NESTED_SERIALIZER_PREFIX_def)
  have b: "truthy (brief ?v)" "\<not> truthy (brief ?w)" by (simp_all add: tenant_view_def)
  have "get_queryset ?v =
          Inr ((super_get_queryset ?v)
                \<lparr>annotations :=
                   filter (\<lambda>kv. fst kv \<in> set (serializer_fields NestedTenantSerializer_example))
                     (annotations (super_get_queryset ?v)),
                 prefetch_related_lookups := brief_prefetch_fields ?v\<rparr>)"
    using brief_get_queryset_frame [of ?v] b(1) c by simp
  moreover have "get_queryset ?w = Inr (super_get_queryset ?w)"
    using brief_get_queryset_frame [of ?w] b(2) by simp
  ultimately show ?thesis
    by (simp add: tenant_view_def NestedTenantSerializer_example_def)
qed

section \<open>Properties of SequentialBulkCreatesMixin\<close>

text \<open>
  C9: for a body that is the empty array the loop of \<^verbatim>\<open>create\<close> binds \<^verbatim>\<open>serializer\<close>
  never, so reading \<^verbatim>\<open>serializer.data\<close> after the loop raises and no response is
  returned; the database is as it was.
\<close>

theorem create_empty_list_unbound:
  "create v (req\<lparr>data := PyList []\<rparr>) db = (Inl UnboundLocalError, db)"
  by (simp add: create_def atomic_def)

section \<open>Properties of ExportTemplatesMixin\<close>

lemma first_filter_None: "first (filter P xs) = None \<longleftrightarrow> (\<forall>x\<in>set xs. \<not> P x)"
  by (induction xs) auto

lemma first_filter_Some: "first (filter P xs) = Some x \<Longrightarrow> x \<in> set xs \<and> P x"
  by (induction xs) (auto split: if_splits)

text \<open>
  C5: for a list request that carries an \<^verbatim>\<open>export\<close> parameter, \<^verbatim>\<open>list\<close> raises
  \<^verbatim>\<open>Http404\<close> when no export template bound to the content type of the model has the
  requested name, and otherwise returns what such a template renders from the filtered
  queryset, not the list response of the superclass.
\<close>

theorem export_template_lookup:
  assumes "querydict_contains (GET req) ''export''"
  shows "\<exists>nm. querydict_get (GET req) ''export'' = Some nm \<and>
     ((\<forall>et\<in>set (export_templates v).
          \<not> (content_type v \<in> set (et_content_types et) \<and> et_name et = nm)) \<longrightarrow>
        list v req = Inl Http404) \<and>
     ((\<exists>et\<in>set (export_templates v).
          content_type v \<in> set (et_content_types et) \<and> et_name et = nm) \<longrightarrow>
        (\<exists>et\<in>set (export_templates v).
           content_type v \<in> set (et_content_types et) \<and> et_name et = nm \<and>
           list v req = Inr (render_to_response v et (filtered_queryset v))))"
proof -
  from assms obtain nm where nm: "querydict_get (GET req) ''export'' = Some nm"
    using querydict_get_Some_iff by blast
  let ?P = "\<lambda>et. content_type v \<in> set (et_content_types et) \<and> et_name et = nm"
  have l: "list v req =
             (case first (filter ?P (export_templates v)) of
                None \<Rightarrow> Inl Http404
              | Some et \<Rightarrow> Inr (render_to_response v et (filtered_queryset v)))"
    using assms nm by (simp add: list_def)
  have a: "(\<forall>et\<in>set (export_templates v). \<not> ?P et) \<longrightarrow> list v req = Inl Http404"
    using first_filter_None [of ?P "export_templates v"] by (simp add: l)
  have b: "(\<exists>et\<in>set (export_templates v). ?P et) \<longrightarrow>
        (\<exists>et\<in>set (export_templates v). ?P et \<and>
           list v req = Inr (render_to_response v et (filtered_queryset v)))"
  proof
    assume "\<exists>et\<in>set (export_templates v). ?P et"
    then have "first (filter ?P (export_templates v)) \<noteq> None"
      using first_filter_None [of ?P "export_templates v"] by blast
    then obtain et where et: "first (filter ?P (export_templates v)) = Some et" by blast
    from first_filter_Some [OF et] have "et \<in> set (export_templates v)" "?P et" by blast+
    moreover have "list v req = Inr (render_to_response v et (filtered_queryset v))"
      by (simp add: l et)
    ultimately show "\<exists>et\<in>set (export_templates v). ?P et \<and>
           list v req = Inr (render_to_response v et (filtered_queryset v))" by blast
  qed
  from nm a b show ?thesis by blast
qed

theorem export_template_lookup_witness:
  "list tenant_export_view \<lparr>request_method = ''GET'', GET = [(''export'', ''csv'')], data = PyNone\<rparr>
     = Inl Http404
   \<and> list tenant_export_view
       \<lparr>request_method = ''GET'', GET = [(''export'', ''summary'')], data = PyNone\<rparr>
     = Inr (''summary'', [''acme'', ''initech''])"
proof -
  let ?r = "\<lparr>request_method = ''GET'', GET = [(''export'', ''csv'')], data = PyNone\<rparr>"
  let ?s = "\<lparr>request_method = ''GET'', GET = [(''export'', ''summary'')], data = PyNone\<rparr>"
  have c: "querydict_contains (GET ?r) ''export''" "querydict_contains (GET ?s) ''export''"
    by (simp_all add: querydict_contains_def)
  have g: "querydict_get (GET ?r) ''export'' = Some ''csv''"
          "querydict_get (GET ?s) ''export'' = Some ''summary''"
    by (simp_all add: querydict_get_def)
  from export_template_lookup [OF c(1), of tenant_export_view] g(1)
  have "list tenant_export_view ?r = Inl Http404"
    by (simp add: tenant_export_view_def)
  moreover from export_template_lookup [OF c(2), of tenant_export_view] g(2)
  have "list tenant_export_view ?s = Inr (''summary'', [''acme'', ''initech''])"
    by (simp add: tenant_export_view_def)
  ultimately show ?thesis by simp
qed

section \<open>Properties of ObjectValidationMixin\<close>

lemma conforming_count_card:
  assumes "distinct (map f qs)"
  shows "length (filter (\<lambda>obj. f obj \<in> A) qs) = card (A \<inter> set (map f qs))"
proof -
  have m: "map f (filter (\<lambda>obj. f obj \<in> A) qs) = filter (\<lambda>x. x \<in> A) (map f qs)"
    by (induction qs) auto
  have "length (filter (\<lambda>obj. f obj \<in> A) qs)
          = length (map f (filter (\<lambda>obj. f obj \<in> A) qs))"
    by simp
  also have "\<dots> = length (filter (\<lambda>x. x \<in> A) (map f qs))"
    by (simp only: m)
  also have "\<dots> = card (set (filter (\<lambda>x. x \<in> A) (map f qs)))"
    by (rule distinct_card [symmetric]) (rule distinct_filter [OF assms])
  also have "set (filter (\<lambda>x. x \<in> A) (map f qs)) = A \<inter> set (map f qs)"
    by auto
  finally show ?thesis .
qed

text \<open>
  C4: the claim holds of the branch for a single instance and is broken by the branch for
  a list, which compares the number of matching rows with the length of the list instead
  of checking each instance. On the table of sites, the site with the id 1 is accepted
  alone and rejected when the list names it twice, although every instance of that list
  is matched. On a queryset that yields a row once for each related match, the list of
  the sites with the ids 1 and 3 is accepted although no row has the id 3, which the
  branch for a single instance rejects.
\<close>

theorem validate_objects_count_slip:
  "validate_objects sites sites_table (Instance (1, ''a'')) = Inr ()
   \<and> validate_objects sites sites_table (Instances [(1, ''a''), (1, ''a'')])
       = Inl ObjectDoesNotExist
   \<and> validate_objects sites_joined sites_table (Instance (3, ''c'')) = Inl ObjectDoesNotExist
   \<and> validate_objects sites_joined sites_table (Instances [(1, ''a''), (3, ''c'')]) = Inr ()"
  by (simp add: validate_objects_def filter_pk_in_def sites_joined_def sites_def
      sites_table_def)

text \<open>
  Where the two branches agree with membership in the queryset: a single instance is
  accepted exactly when the queryset matches its key; on a queryset whose rows have
  distinct keys, a list with an unmatched instance is rejected, and a list of instances
  with pairwise distinct keys, all matched, is accepted.
\<close>

lemma validate_objects_single:
  "validate_objects v db (Instance obj) =
     (if pk v obj \<in> set (map (pk v) (self_queryset v db)) then Inr ()
      else Inl ObjectDoesNotExist)"
proof -
  have "filter (\<lambda>row. pk v row = pk v obj) (self_queryset v db) \<noteq> []
          \<longleftrightarrow> pk v obj \<in> set (map (pk v) (self_queryset v db))"
    unfolding filter_empty_conv set_map image_iff by metis
  then show ?thesis by (simp add: validate_objects_def)
qed

lemma validate_objects_conformance:
  assumes "distinct (map (pk v) (self_queryset v db))"
  shows "validate_objects v db (Instance obj) =
           (if pk v obj \<in> set (map (pk v) (self_queryset v db)) then Inr ()
            else Inl ObjectDoesNotExist)
       \<and> ((\<exists>obj\<in>set objs. pk v obj \<notin> set (map (pk v) (self_queryset v db))) \<longrightarrow>
            validate_objects v db (Instances objs) = Inl ObjectDoesNotExist)
       \<and> (distinct (map (pk v) objs) \<and>
            (\<forall>obj\<in>set objs. pk v obj \<in> set (map (pk v) (self_queryset v db))) \<longrightarrow>
            validate_objects v db (Instances objs) = Inr ())"
proof -
  let ?Q = "set (map (pk v) (self_queryset v db))"
  let ?A = "set (map (pk v) objs)"
  have single: "filter (\<lambda>row. pk v row = pk v obj) (self_queryset v db) \<noteq> []
                  \<longleftrightarrow> pk v obj \<in> ?Q"
    unfolding filter_empty_conv set_map image_iff by metis
  have cnt: "length (filter_pk_in v (map (pk v) objs) (self_queryset v db)) = card (?A \<inter> ?Q)"
    unfolding filter_pk_in_def using conforming_count_card [OF assms, of ?A] .
  have le: "card ?A \<le> length objs"
    using card_length [of "map (pk v) objs"] by simp
  have miss: "card (?A \<inter> ?Q) < length objs" if "obj' \<in> set objs" "pk v obj' \<notin> ?Q" for obj'
  proof -
    have "?A \<inter> ?Q \<subset> ?A" using that by auto
    then have "card (?A \<inter> ?Q) < card ?A" by (simp add: psubset_card_mono)
    with le show ?thesis by simp
  qed
  have hit: "card (?A \<inter> ?Q) = length objs"
    if "distinct (map (pk v) objs)" "\<forall>obj\<in>set objs. pk v obj \<in> ?Q"
  proof -
    have "?A \<inter> ?Q = ?A" using that(2) by auto
    then show ?thesis using distinct_card [OF that(1)] by simp
  qed
  have c1: "validate_objects v db (Instance obj) =
              (if pk v obj \<in> ?Q then Inr () else Inl ObjectDoesNotExist)"
    by (simp add: validate_objects_def single)
  have c2: "(\<exists>obj\<in>set objs. pk v obj \<notin> ?Q) \<longrightarrow>
              validate_objects v db (Instances objs) = Inl ObjectDoesNotExist"
  proof
    assume "\<exists>obj\<in>set objs. pk v obj \<notin> ?Q"
    then obtain obj' where "obj' \<in> set objs" "pk v obj' \<notin> ?Q" by blast
    from miss [OF this] show "validate_objects v db (Instances objs) = Inl ObjectDoesNotExist"
      by (simp add: validate_objects_def Let_def cnt)
  qed
  have c3: "distinct (map (pk v) objs) \<and> (\<forall>obj\<in>set objs. pk v obj \<in> ?Q) \<longrightarrow>
              validate_objects v db (Instances objs) = Inr ()"
  proof
    assume "distinct (map (pk v) objs) \<and> (\<forall>obj\<in>set objs. pk v obj \<in> ?Q)"
    then have "card (?A \<inter> ?Q) = length objs" using hit by blast
    then show "validate_objects v db (Instances objs) = Inr ()"
      by (simp add: validate_objects_def Let_def cnt)
  qed
  from c1 c2 c3 show ?thesis by blast
qed

section \<open>Properties of the bulk update and destroy mixins\<close>

lemma atomic_error_restores: "fst (atomic f db) = Inl e \<Longrightarrow> snd (atomic f db) = db"
  by (cases "f db") (auto simp: atomic_def split: sum.splits)

lemma atomic_Inl: "f db = (Inl e, db1) \<Longrightarrow> atomic f db = (Inl e, db)"
  by (simp add: atomic_def)

lemma bulk_update_loop_append:
  "bulk_update_loop v update_data partial (xs @ ys) data_list db =
     (case bulk_update_loop v update_data partial xs data_list db of
        (Inl e, db') \<Rightarrow> (Inl e, db')
      | (Inr data_list', db') \<Rightarrow> bulk_update_loop v update_data partial ys data_list' db')"
proof (induction xs arbitrary: data_list db)
  case Nil
  then show ?case by simp
next
  case (Cons obj xs)
  show ?case
    by (simp add: Let_def Cons.IH split: prod.splits sum.splits)
qed

lemma bulk_destroy_loop_append:
  "bulk_destroy_loop v (xs @ ys) db =
     (case bulk_destroy_loop v xs db of
        (Inl e, db') \<Rightarrow> (Inl e, db')
      | (Inr u, db') \<Rightarrow> bulk_destroy_loop v ys db')"
proof (induction xs arbitrary: db)
  case Nil
  then show ?case by simp
next
  case (Cons obj xs)
  show ?case
    by (simp add: Cons.IH split: prod.splits sum.splits)
qed

lemma bulk_update_error_restores:
  "fst (bulk_update v req partial db) = Inl e \<Longrightarrow> snd (bulk_update v req partial db) = db"
proof -
  assume a: "fst (bulk_update v req partial db) = Inl e"
  show ?thesis
  proof (cases "BulkOperationSerializer (data req)")
    case (Inl e1)
    then show ?thesis by (simp add: bulk_update_def)
  next
    case (Inr ids)
    show ?thesis
    proof (cases "map_update_data (request_items req) Map.empty")
      case (Inl e2)
      with Inr show ?thesis by (simp add: bulk_update_def)
    next
      case (Inr update_data)
      let ?p = "perform_bulk_update v
                  (\<lambda>db. filter_pk_in v ids (get_bulk_update_queryset v db)) update_data partial db"
      obtain r db1 where p: "?p = (r, db1)" by (cases ?p)
      show ?thesis
      proof (cases r)
        case (Inl e3)
        then have "fst ?p = Inl e3" using p by simp
        then have "snd ?p = db"
          unfolding perform_bulk_update_def by (rule atomic_error_restores)
        with p Inl Inr \<open>BulkOperationSerializer (data req) = Inr ids\<close> show ?thesis
          by (simp add: bulk_update_def)
      next
        case (Inr data_list)
        with a p \<open>map_update_data (request_items req) Map.empty = Inr update_data\<close>
          \<open>BulkOperationSerializer (data req) = Inr ids\<close>
        show ?thesis by (simp add: bulk_update_def)
      qed
    qed
  qed
qed

lemma bulk_destroy_error_restores:
  "fst (bulk_destroy v req db) = Inl e \<Longrightarrow> snd (bulk_destroy v req db) = db"
proof -
  assume a: "fst (bulk_destroy v req db) = Inl e"
  show ?thesis
  proof (cases "BulkOperationSerializer (data req)")
    case (Inl e1)
    then show ?thesis by (simp add: bulk_destroy_def)
  next
    case (Inr ids)
    let ?p = "perform_bulk_destroy v
                (\<lambda>db. filter_pk_in v ids (get_bulk_destroy_queryset v db)) db"
    obtain r db1 where p: "?p = (r, db1)" by (cases ?p)
    show ?thesis
    proof (cases r)
      case (Inl e3)
      then have "fst ?p = Inl e3" using p by simp
      then have "snd ?p = db"
        unfolding perform_bulk_destroy_def by (rule atomic_error_restores)
      with p Inl Inr show ?thesis by (simp add: bulk_destroy_def)
    next
      case (Inr u)
      with a p \<open>BulkOperationSerializer (data req) = Inr ids\<close>
      show ?thesis by (simp add: bulk_destroy_def)
    qed
  qed
qed

text \<open>
  C1: a bulk update or bulk destroy that ends in an exception leaves the database as it
  was before the request, at the level of \<^verbatim>\<open>perform_bulk_update\<close> and
  \<^verbatim>\<open>perform_bulk_destroy\<close> and at the level of the whole request. In particular, when
  the objects before \<open>obj\<close> have been updated and \<open>obj\<close> then fails validation, the
  result is the validation error and the state at entry; and when the objects before
  \<open>obj\<close> have been deleted and deleting \<open>obj\<close> raises, the result is that error and the
  state at entry.
\<close>

theorem bulk_all_or_nothing:
  "(fst (perform_bulk_update v objects update_data partial db) = Inl e \<longrightarrow>
      snd (perform_bulk_update v objects update_data partial db) = db)
   \<and> (fst (perform_bulk_destroy v objects db) = Inl e \<longrightarrow>
      snd (perform_bulk_destroy v objects db) = db)
   \<and> (fst (bulk_update v req partial db) = Inl e \<longrightarrow> snd (bulk_update v req partial db) = db)
   \<and> (fst (bulk_destroy v req db) = Inl e \<longrightarrow> snd (bulk_destroy v req db) = db)
   \<and> (objects db = pre @ obj # post
        \<and> bulk_update_loop v update_data partial pre [] db = (Inr data_list, db1)
        \<and> \<not> is_valid v db1 (Some (take_snapshot v obj))
              (update_data_get update_data (pk v obj)) partial \<longrightarrow>
      perform_bulk_update v objects update_data partial db = (Inl ValidationError, db))
   \<and> (objects db = pre @ obj # post
        \<and> bulk_destroy_loop v pre db = (Inr (), db2)
        \<and> perform_destroy v db2 (take_snapshot v obj) = (Inl e, db3) \<longrightarrow>
      perform_bulk_destroy v objects db = (Inl e, db))"
proof -
  have u: "perform_bulk_update v objects update_data partial db = (Inl ValidationError, db)"
    if "objects db = pre @ obj # post"
       "bulk_update_loop v update_data partial pre [] db = (Inr data_list, db1)"
       "\<not> is_valid v db1 (Some (take_snapshot v obj)) (update_data_get update_data (pk v obj)) partial"
  proof -
    have "bulk_update_loop v update_data partial (objects db) [] db = (Inl ValidationError, db1)"
      using that by (simp add: bulk_update_loop_append Let_def)
    then show ?thesis
      unfolding perform_bulk_update_def by (rule atomic_Inl)
  qed
  have d: "perform_bulk_destroy v objects db = (Inl e, db)"
    if "objects db = pre @ obj # post"
       "bulk_destroy_loop v pre db = (Inr (), db2)"
       "perform_destroy v db2 (take_snapshot v obj) = (Inl e, db3)"
  proof -
    have "bulk_destroy_loop v (objects db) db = (Inl e, db3)"
      using that by (simp add: bulk_destroy_loop_append)
    then show ?thesis
      unfolding perform_bulk_destroy_def by (rule atomic_Inl)
  qed
  show ?thesis
    using u d bulk_update_error_restores [of v req partial db e]
      bulk_destroy_error_restores [of v req db e]
      atomic_error_restores [of "\<lambda>db. bulk_update_loop v update_data partial (objects db) [] db" db e]
      atomic_error_restores [of "\<lambda>db. bulk_destroy_loop v (objects db) db" db e]
    unfolding perform_bulk_update_def perform_bulk_destroy_def by blast
qed


theorem bulk_all_or_nothing_witness:
  "bulk_update_loop sites
     (Map.empty(PyInt 1 \<mapsto> PyDict [(''name'', PyStr ''x'')],
                PyInt 2 \<mapsto> PyDict [(''name'', PyStr [])]))
     True sites_table [] sites_table
     = (Inl ValidationError, [(1, ''x''), (2, ''b'')])
   \<and> bulk_update sites patch_request True sites_table = (Inl ValidationError, sites_table)
   \<and> bulk_destroy_loop sites [(1, ''a''), (3, ''protected'')] (sites_table @ [(3, ''protected'')])
     = (Inl (OtherError ''protected''), [(2, ''b''), (3, ''protected'')])
   \<and> bulk_destroy sites delete_request (sites_table @ [(3, ''protected'')])
     = (Inl (OtherError ''protected''), sites_table @ [(3, ''protected'')])"
proof -
  let ?db = "sites_table @ [(3, ''protected'')]"
  have l1: "bulk_update_loop sites
     (Map.empty(PyInt 1 \<mapsto> PyDict [(''name'', PyStr ''x'')],
                PyInt 2 \<mapsto> PyDict [(''name'', PyStr [])]))
     True sites_table [] sites_table
     = (Inl ValidationError, [(1, ''x''), (2, ''b'')])"
    by (simp add: sites_table_def sites_def update_data_get_def take_snapshot_def
        site_name_def Let_def)
  have l2: "bulk_destroy_loop sites [(1, ''a''), (3, ''protected'')] ?db
     = (Inl (OtherError ''protected''), [(2, ''b''), (3, ''protected'')])"
    by (simp add: sites_table_def sites_def take_snapshot_def)
  have f1: "fst (bulk_update sites patch_request True sites_table) = Inl ValidationError"
    by (simp add: bulk_update_def patch_request_def BulkOperationSerializer_def
        request_items_def perform_bulk_update_def atomic_def filter_pk_in_def
        get_bulk_update_queryset_def dict_pop_def sites_table_def sites_def
        update_data_get_def take_snapshot_def site_name_def Let_def)
  have f2: "fst (bulk_destroy sites delete_request ?db) = Inl (OtherError ''protected'')"
    by (simp add: bulk_destroy_def delete_request_def BulkOperationSerializer_def
        perform_bulk_destroy_def atomic_def filter_pk_in_def
        get_bulk_destroy_queryset_def sites_table_def sites_def take_snapshot_def)
  have s1: "snd (bulk_update sites patch_request True sites_table) = sites_table"
    using bulk_all_or_nothing [of sites _ _ True sites_table ValidationError patch_request] f1
    by blast
  have s2: "snd (bulk_destroy sites delete_request ?db) = ?db"
    using bulk_all_or_nothing [of sites _ _ _ ?db "OtherError ''protected''" delete_request] f2
    by blast
  from l1 l2 f1 f2 s1 s2 show ?thesis
    by (simp add: prod_eq_iff)
qed

section \<open>Properties of sequential creation\<close>

lemma create_loop_chain:
  assumes "create_loop v items return_data serializer db = (Inr (return_data', serializer'), db')"
  shows "\<exists>reps dbs insts.
           return_data' = return_data @ reps
         \<and> length reps = length items \<and> length insts = length items
         \<and> length dbs = Suc (length items)
         \<and> dbs ! 0 = db \<and> dbs ! length items = db'
         \<and> (\<forall>k<length items.
               is_valid v (dbs ! k) None (items ! k) False
             \<and> perform_create v (dbs ! k) (items ! k) = (Inr (insts ! k), dbs ! Suc k)
             \<and> reps ! k = serializer_data v (dbs ! Suc k) (insts ! k))"
  using assms
proof (induction items arbitrary: return_data serializer db)
  case Nil
  then have "return_data' = return_data" "db' = db" by simp_all
  then show ?case
    by (intro exI [of _ "[]"] exI [of _ "[db]"]) simp
next
  case (Cons d items)
  from Cons.prems have valid: "is_valid v db None d False"
    by (simp split: if_splits)
  obtain r db1 where pc: "perform_create v db d = (r, db1)" by (cases "perform_create v db d")
  from Cons.prems valid pc obtain inst where r: "r = Inr inst"
    by (cases r) auto
  let ?rep = "serializer_data v db1 inst"
  from Cons.prems valid pc r
  have rest: "create_loop v items (return_data @ [?rep]) (Some ?rep) db1
                = (Inr (return_data', serializer'), db')"
    by simp
  from Cons.IH [OF rest] obtain reps dbs insts where ih:
    "return_data' = (return_data @ [?rep]) @ reps"
    "length reps = length items" "length insts = length items"
    "length dbs = Suc (length items)"
    "dbs ! 0 = db1" "dbs ! length items = db'"
    "\<forall>k<length items.
        is_valid v (dbs ! k) None (items ! k) False
      \<and> perform_create v (dbs ! k) (items ! k) = (Inr (insts ! k), dbs ! Suc k)
      \<and> reps ! k = serializer_data v (dbs ! Suc k) (insts ! k)"
    by blast
  let ?reps = "?rep # reps" and ?dbs = "db # dbs" and ?insts = "inst # insts"
  have step: "is_valid v (?dbs ! k) None ((d # items) ! k) False
      \<and> perform_create v (?dbs ! k) ((d # items) ! k) = (Inr (?insts ! k), ?dbs ! Suc k)
      \<and> ?reps ! k = serializer_data v (?dbs ! Suc k) (?insts ! k)"
    if "k < length (d # items)" for k
  proof (cases k)
    case 0
    then show ?thesis using valid pc r ih(5) by simp
  next
    case (Suc j)
    with that have "j < length items" by simp
    with ih(7) Suc show ?thesis by simp
  qed
  have "return_data' = return_data @ ?reps" using ih(1) by simp
  moreover have "length ?reps = length (d # items)" "length ?insts = length (d # items)"
    "length ?dbs = Suc (length (d # items))" using ih(2,3,4) by simp_all
  moreover have "?dbs ! 0 = db" "?dbs ! length (d # items) = db'" using ih(6) by simp_all
  ultimately show ?case using step by blast
qed

lemma create_loop_append:
  "create_loop v (xs @ ys) return_data serializer db =
     (case create_loop v xs return_data serializer db of
        (Inl e, db') \<Rightarrow> (Inl e, db')
      | (Inr (return_data', serializer'), db') \<Rightarrow>
          create_loop v ys return_data' serializer' db')"
proof (induction xs arbitrary: return_data serializer db)
  case Nil
  then show ?case by simp
next
  case (Cons d xs)
  show ?case
    by (simp add: Cons.IH split: prod.splits sum.splits)
qed

lemma create_loop_succeeds:
  assumes "length states = Suc (length items)" "length created = length items"
      and "states ! 0 = db"
      and "\<forall>k<length items.
             is_valid v (states ! k) None (items ! k) False
           \<and> perform_create v (states ! k) (items ! k) = (Inr (created ! k), states ! Suc k)"
  shows "create_loop v items return_data serializer db =
           (Inr (return_data
                   @ map (\<lambda>k. serializer_data v (states ! Suc k) (created ! k))
                       [0..<length items],
                 if items = [] then serializer
                 else Some (serializer_data v (states ! length items)
                              (created ! (length items - 1)))),
            states ! length items)"
  using assms
proof (induction items arbitrary: states created return_data serializer db)
  case Nil
  then show ?case by simp
next
  case (Cons d items)
  from Cons.prems(1) obtain db0 states' where
    st: "states = db0 # states'" "length states' = Suc (length items)"
    by (cases states) auto
  from Cons.prems(2) obtain c created' where
    cr: "created = c # created'" "length created' = length items"
    by (cases created) auto
  from Cons.prems(3) st have db0: "db0 = db" by simp
  from Cons.prems(4) [rule_format, of 0] st cr db0
  have first: "is_valid v db None d False" "perform_create v db d = (Inr c, states' ! 0)"
    by simp_all
  let ?rep = "serializer_data v (states' ! 0) c"
  have chain: "\<forall>k<length items.
             is_valid v (states' ! k) None (items ! k) False
           \<and> perform_create v (states' ! k) (items ! k)
               = (Inr (created' ! k), states' ! Suc k)"
  proof (intro allI impI)
    fix k assume "k < length items"
    then have "Suc k < length (d # items)" by simp
    from Cons.prems(4) [rule_format, OF this] st cr
    show "is_valid v (states' ! k) None (items ! k) False
           \<and> perform_create v (states' ! k) (items ! k)
               = (Inr (created' ! k), states' ! Suc k)"
      by simp
  qed
  have ih: "create_loop v items (return_data @ [?rep]) (Some ?rep) (states' ! 0) =
           (Inr ((return_data @ [?rep])
                   @ map (\<lambda>k. serializer_data v (states' ! Suc k) (created' ! k))
                       [0..<length items],
                 if items = [] then Some ?rep
                 else Some (serializer_data v (states' ! length items)
                              (created' ! (length items - 1)))),
            states' ! length items)"
    by (rule Cons.IH [OF st(2) cr(2) refl chain])
  have last: "created ! (length (d # items) - 1)
                = (if items = [] then c else created' ! (length items - 1))"
    using cr by (cases items) simp_all
  have reps: "map (\<lambda>k. serializer_data v (states ! Suc k) (created ! k)) [0..<length (d # items)]
                = ?rep # map (\<lambda>k. serializer_data v (states' ! Suc k) (created' ! k))
                          [0..<length items]"
    using st cr by (simp add: map_upt_Suc del: upt_Suc)
  have "create_loop v (d # items) return_data serializer db
          = create_loop v items (return_data @ [?rep]) (Some ?rep) (states' ! 0)"
    using first by simp
  also note ih
  finally show ?case
    unfolding reps last using st by (cases "items = []") simp_all
qed

text \<open>
  C3: \<^verbatim>\<open>create\<close> on a body that is an array of N items creates the items one at a time
  in the order of the array and returns 201 with the N representations in that order.
  \<^item> When it returns a response, the status is 201 and the body is the array of the N
    representations in input order, the k-th item having been validated and created on
    the database left by the creations before it (\<open>dbs ! k\<close>), the first on the
    database at entry; the database returned is the one left by the last creation.
  \<^item> The whole method is one transaction: when it raises, the database is the one at
    entry.
  \<^item> Conversely, for N at least 1, when each item is valid on, and created without an
    error from, the database that the creations before it leave (\<open>states\<close>), the method
    does return 201 with those N representations, the headers made from the last one,
    and the last database.
  \<^item> When the items before \<open>d\<close> have been created and \<open>d\<close> fails validation, or creating
    it raises, the method raises that error and the database is the one at entry.
\<close>

theorem create_sequential:
  "(data req = PyList items \<and> create v req db = (Inr resp, db') \<longrightarrow>
      status resp = HTTP_201_CREATED
    \<and> (\<exists>reps dbs insts.
          body resp = Array reps
        \<and> length reps = length items \<and> length insts = length items
        \<and> length dbs = Suc (length items)
        \<and> dbs ! 0 = db \<and> dbs ! length items = db'
        \<and> (\<forall>k<length items.
              is_valid v (dbs ! k) None (items ! k) False
            \<and> perform_create v (dbs ! k) (items ! k) = (Inr (insts ! k), dbs ! Suc k)
            \<and> reps ! k = serializer_data v (dbs ! Suc k) (insts ! k))))
   \<and> (fst (create v req db) = Inl e \<longrightarrow> snd (create v req db) = db)
   \<and> (data req = PyList items \<and> items \<noteq> []
        \<and> length states = Suc (length items) \<and> length created = length items
        \<and> states ! 0 = db
        \<and> (\<forall>k<length items.
              is_valid v (states ! k) None (items ! k) False
            \<and> perform_create v (states ! k) (items ! k)
                = (Inr (created ! k), states ! Suc k)) \<longrightarrow>
      create v req db =
        (Inr (Response
               (Array (map (\<lambda>k. serializer_data v (states ! Suc k) (created ! k))
                         [0..<length items]))
               HTTP_201_CREATED
               (Some (get_success_headers v
                        (serializer_data v (states ! length items)
                           (created ! (length items - 1)))))),
         states ! length items))
   \<and> (data req = PyList (pre @ d # post)
        \<and> create_loop v pre [] None db = (Inr (return_data, serializer), dbp)
        \<and> \<not> is_valid v dbp None d False \<longrightarrow>
      create v req db = (Inl ValidationError, db))
   \<and> (data req = PyList (pre @ d # post)
        \<and> create_loop v pre [] None db = (Inr (return_data, serializer), dbp)
        \<and> is_valid v dbp None d False \<and> perform_create v dbp d = (Inl e, dbe) \<longrightarrow>
      create v req db = (Inl e, db))"
proof -
  have rollback: "fst (create v req db) = Inl e \<longrightarrow> snd (create v req db) = db"
    unfolding create_def using atomic_error_restores by fast
  have ok: "status resp = HTTP_201_CREATED
    \<and> (\<exists>reps dbs insts.
          body resp = Array reps
        \<and> length reps = length items \<and> length insts = length items
        \<and> length dbs = Suc (length items)
        \<and> dbs ! 0 = db \<and> dbs ! length items = db'
        \<and> (\<forall>k<length items.
              is_valid v (dbs ! k) None (items ! k) False
            \<and> perform_create v (dbs ! k) (items ! k) = (Inr (insts ! k), dbs ! Suc k)
            \<and> reps ! k = serializer_data v (dbs ! Suc k) (insts ! k)))"
    if d: "data req = PyList items" and c: "create v req db = (Inr resp, db')"
  proof -
    obtain r db1 where l: "create_loop v items [] None db = (r, db1)"
      by (cases "create_loop v items [] None db")
    from c d l obtain return_data sd where
      r: "r = Inr (return_data, Some sd)" and
      resp: "resp = Response (Array return_data) HTTP_201_CREATED (Some (get_success_headers v sd))"
      and db': "db' = db1"
      by (auto simp: create_def atomic_def split: sum.splits option.splits)
    from create_loop_chain [OF l [unfolded r]] db' resp show ?thesis by simp
  qed
  have succeeds: "create v req db =
        (Inr (Response
               (Array (map (\<lambda>k. serializer_data v (states ! Suc k) (created ! k))
                         [0..<length items]))
               HTTP_201_CREATED
               (Some (get_success_headers v
                        (serializer_data v (states ! length items)
                           (created ! (length items - 1)))))),
         states ! length items)"
    if "data req = PyList items" "items \<noteq> []"
       "length states = Suc (length items)" "length created = length items"
       "states ! 0 = db"
       "\<forall>k<length items.
              is_valid v (states ! k) None (items ! k) False
            \<and> perform_create v (states ! k) (items ! k)
                = (Inr (created ! k), states ! Suc k)"
    using create_loop_succeeds [OF that(3,4,5,6), of "[]" None] that(1,2)
    by (simp add: create_def atomic_def)
  have invalid: "create v req db = (Inl ValidationError, db)"
    if "data req = PyList (pre @ d # post)"
       "create_loop v pre [] None db = (Inr (return_data, serializer), dbp)"
       "\<not> is_valid v dbp None d False"
    using that by (simp add: create_def atomic_def create_loop_append)
  have raises: "create v req db = (Inl e, db)"
    if "data req = PyList (pre @ d # post)"
       "create_loop v pre [] None db = (Inr (return_data, serializer), dbp)"
       "is_valid v dbp None d False" "perform_create v dbp d = (Inl e, dbe)"
    using that by (simp add: create_def atomic_def create_loop_append)
  from ok rollback succeeds invalid raises show ?thesis by blast
qed

theorem create_sequential_witness:
  "create sites (post_request ''c'' ''d'') sites_table
     = (Inr (Response (Array [[(''id'', PyInt 3), (''name'', PyStr ''c'')],
                              [(''id'', PyInt 4), (''name'', PyStr ''d'')]])
              201 (Some ''Location'')),
        [(1, ''a''), (2, ''b''), (3, ''c''), (4, ''d'')])
   \<and> create sites (post_request ''c'' ''c'') sites_table = (Inl ValidationError, sites_table)
   \<and> create sites (post_request ''c'' ''a'') sites_table = (Inl ValidationError, sites_table)"
proof -
  let ?c = "PyDict [(''name'', PyStr ''c'')]" and ?d = "PyDict [(''name'', PyStr ''d'')]"
  let ?states = "[sites_table, sites_table @ [(3, ''c'')], sites_table @ [(3, ''c''), (4, ''d'')]]"
  let ?created = "[(3, ''c''), (4, ''d'')] :: site list"
  have d: "data (post_request ''c'' ''d'') = PyList [?c, ?d]"
    by (simp add: post_request_def)
  have chain: "\<forall>k<length [?c, ?d].
              is_valid sites (?states ! k) None ([?c, ?d] ! k) False
            \<and> perform_create sites (?states ! k) ([?c, ?d] ! k)
                = (Inr (?created ! k), ?states ! Suc k)"
    by (simp add: less_Suc_eq sites_def sites_table_def site_name_def)
  have up: "[0..<length [?c, ?d]] = [0, Suc 0]"
    by (simp add: upt_rec)
  from create_sequential
         [where req = "post_request ''c'' ''d''" and items = "[?c, ?d]" and v = sites
            and db = sites_table and states = ?states and created = ?created] d chain
  have "create sites (post_request ''c'' ''d'') sites_table =
        (Inr (Response
               (Array (map (\<lambda>k. serializer_data sites (?states ! Suc k) (?created ! k))
                         [0..<length [?c, ?d]]))
               HTTP_201_CREATED
               (Some (get_success_headers sites
                        (serializer_data sites (?states ! length [?c, ?d])
                           (?created ! (length [?c, ?d] - 1)))))),
         ?states ! length [?c, ?d])"
    by simp
  then have ok: "create sites (post_request ''c'' ''d'') sites_table
     = (Inr (Response (Array [[(''id'', PyInt 3), (''name'', PyStr ''c'')],
                              [(''id'', PyInt 4), (''name'', PyStr ''d'')]])
              201 (Some ''Location'')),
        [(1, ''a''), (2, ''b''), (3, ''c''), (4, ''d'')])"
    unfolding up by (simp add: sites_def sites_table_def HTTP_201_CREATED_def)
  have pre: "create_loop sites [?c] [] None sites_table
               = (Inr ([[(''id'', PyInt 3), (''name'', PyStr ''c'')]],
                       Some [(''id'', PyInt 3), (''name'', PyStr ''c'')]),
                  sites_table @ [(3, ''c'')])"
    by (simp add: sites_def sites_table_def site_name_def)
  have inv: "\<not> is_valid sites (sites_table @ [(3, ''c'')]) None (PyDict [(''name'', PyStr n)]) False"
    if "n = ''c'' \<or> n = ''a''" for n
    using that by (auto simp: sites_def sites_table_def site_name_def)
  have dn: "data (post_request ''c'' n) = PyList ([?c] @ PyDict [(''name'', PyStr n)] # [])" for n
    by (simp add: post_request_def)
  have f: "create sites (post_request ''c'' n) sites_table = (Inl ValidationError, sites_table)"
    if "n = ''c'' \<or> n = ''a''" for n
    using create_sequential
         [where req = "post_request ''c'' n" and v = sites and db = sites_table
            and pre = "[?c]" and d = "PyDict [(''name'', PyStr n)]" and post = "[]"
            and dbp = "sites_table @ [(3, ''c'')]"] dn [of n] pre inv [OF that]
    by blast
  from ok f [of "''c''"] f [of "''a''"] show ?thesis by simp
qed

section \<open>Properties of the ids of a bulk request\<close>

lemma bulk_update_loop_ids:
  assumes "\<forall>db obj d inst db'.
             perform_update v db (take_snapshot v obj) d partial = (Inr inst, db') \<longrightarrow>
             rep_id (serializer_data v db' inst) = pk v obj"
      and "bulk_update_loop v update_data partial objs data_list db = (Inr reps, db')"
  shows "map rep_id reps = map rep_id data_list @ map (pk v) objs"
  using assms(2)
proof (induction objs arbitrary: data_list db)
  case Nil
  then show ?case by simp
next
  case (Cons obj objs)
  let ?d = "update_data_get update_data (pk v obj)"
  let ?o = "take_snapshot v obj"
  from Cons.prems have valid: "is_valid v db (Some ?o) ?d partial"
    by (simp add: Let_def split: if_splits)
  obtain r db1 where pu: "perform_update v db ?o ?d partial = (r, db1)"
    by (cases "perform_update v db ?o ?d partial")
  from Cons.prems valid pu obtain inst where r: "r = Inr inst"
    by (cases r) (auto simp: Let_def)
  from Cons.prems valid pu r
  have rest: "bulk_update_loop v update_data partial objs
                (data_list @ [serializer_data v db1 inst]) db1 = (Inr reps, db')"
    by (simp add: Let_def)
  from assms(1) pu r have "rep_id (serializer_data v db1 inst) = pk v obj" by blast
  with Cons.IH [OF rest] show ?case by simp
qed

lemma bulk_update_loop_cong:
  assumes "\<forall>obj\<in>set objs. update_data_get u1 (pk v obj) = update_data_get u2 (pk v obj)"
  shows "bulk_update_loop v u1 partial objs data_list db
           = bulk_update_loop v u2 partial objs data_list db"
  using assms
proof (induction objs arbitrary: data_list db)
  case Nil
  then show ?case by simp
next
  case (Cons obj objs)
  then show ?case
    by (simp add: Let_def split: prod.splits sum.splits)
qed

lemma bulk_operation_id_item:
  assumes "bulk_operation_id item = Some i"
  obtains d where "item = PyDict d" "map_of d ''id'' = Some (PyInt i)"
  using assms
  by (cases item) (auto split: option.splits pyval.splits)

lemma map_update_data_agree:
  assumes "\<forall>k. k \<noteq> K \<longrightarrow> m k = m' k"
  shows "(case map_update_data items m of
            Inl e \<Rightarrow> map_update_data items m' = Inl e
          | Inr r \<Rightarrow> (\<exists>r'. map_update_data items m' = Inr r' \<and> (\<forall>k. k \<noteq> K \<longrightarrow> r k = r' k)))"
  using assms
proof (induction items m arbitrary: m' rule: map_update_data.induct)
  case (2 d rest m)
  show ?case
  proof (cases "map_of d ''id''")
    case None
    then show ?thesis by simp
  next
    case (Some i)
    have "\<forall>k. k \<noteq> K \<longrightarrow>
            (m(i \<mapsto> PyDict (dict_pop ''id'' d))) k = (m'(i \<mapsto> PyDict (dict_pop ''id'' d))) k"
      using "2.prems" by simp
    from "2.IH" [OF Some this]
    have ih: "(case map_update_data rest (m(i \<mapsto> PyDict (dict_pop ''id'' d))) of
                 Inl e \<Rightarrow> map_update_data rest (m'(i \<mapsto> PyDict (dict_pop ''id'' d))) = Inl e
               | Inr r \<Rightarrow>
                   (\<exists>r'. map_update_data rest (m'(i \<mapsto> PyDict (dict_pop ''id'' d))) = Inr r'
                      \<and> (\<forall>k. k \<noteq> K \<longrightarrow> r k = r' k)))" .
    have e: "map_update_data (PyDict d # rest) m
               = map_update_data rest (m(i \<mapsto> PyDict (dict_pop ''id'' d)))"
            "map_update_data (PyDict d # rest) m'
               = map_update_data rest (m'(i \<mapsto> PyDict (dict_pop ''id'' d)))"
      using Some by (simp_all del: fun_upd_apply)
    show ?thesis unfolding e by (rule ih)
  qed
qed simp_all

lemma map_update_data_insert:
  assumes "bulk_operation_id item = Some i"
  shows "(case map_update_data (xs @ ys) m of
            Inl e \<Rightarrow> map_update_data (xs @ item # ys) m = Inl e
          | Inr r \<Rightarrow> (\<exists>r'. map_update_data (xs @ item # ys) m = Inr r'
                        \<and> (\<forall>k. k \<noteq> PyInt i \<longrightarrow> r k = r' k)))"
proof (induction xs m rule: map_update_data.induct)
  case (1 m)
  from assms obtain d where d: "item = PyDict d" "map_of d ''id'' = Some (PyInt i)"
    by (rule bulk_operation_id_item)
  have "\<forall>k. k \<noteq> PyInt i \<longrightarrow> m k = (m(PyInt i \<mapsto> PyDict (dict_pop ''id'' d))) k"
    by simp
  then have a: "(case map_update_data ys m of
             Inl e \<Rightarrow> map_update_data ys (m(PyInt i \<mapsto> PyDict (dict_pop ''id'' d))) = Inl e
           | Inr r \<Rightarrow>
               (\<exists>r'. map_update_data ys (m(PyInt i \<mapsto> PyDict (dict_pop ''id'' d))) = Inr r'
                  \<and> (\<forall>k. k \<noteq> PyInt i \<longrightarrow> r k = r' k)))"
    by (rule map_update_data_agree)
  have e: "map_update_data (item # ys) m
             = map_update_data ys (m(PyInt i \<mapsto> PyDict (dict_pop ''id'' d)))"
    using d by (simp del: fun_upd_apply)
  show ?case unfolding append_Nil e by (rule a)
next
  case (2 d rest m)
  show ?case
  proof (cases "map_of d ''id''")
    case None
    then show ?thesis by simp
  next
    case (Some j)
    have e: "map_update_data ((PyDict d # rest) @ ys) m
               = map_update_data (rest @ ys) (m(j \<mapsto> PyDict (dict_pop ''id'' d)))"
            "map_update_data ((PyDict d # rest) @ item # ys) m
               = map_update_data (rest @ item # ys) (m(j \<mapsto> PyDict (dict_pop ''id'' d)))"
      using Some by (simp_all del: fun_upd_apply)
    show ?thesis unfolding e by (rule "2.IH" [OF Some])
  qed
qed simp_all

lemma bulk_operation_ids_Cons:
  assumes "bulk_operation_ids (x # xs) = Inr ids"
  obtains i ids' where "bulk_operation_id x = Some i" "bulk_operation_ids xs = Inr ids'"
    "ids = i # ids'"
proof (cases "bulk_operation_id x")
  case None
  with assms show ?thesis by simp
next
  case (Some i)
  show ?thesis
  proof (cases "bulk_operation_ids xs")
    case (Inl e)
    with assms Some show ?thesis by simp
  next
    case (Inr ids')
    with assms Some have "ids = i # ids'" by simp
    with Some Inr that show ?thesis by blast
  qed
qed

lemma map_update_data_valid:
  "bulk_operation_ids items = Inr ids \<Longrightarrow> \<exists>r. map_update_data items m = Inr r"
proof (induction items arbitrary: ids m)
  case Nil
  then show ?case by simp
next
  case (Cons x items)
  from Cons.prems obtain i ids' where
    x: "bulk_operation_id x = Some i" and rest: "bulk_operation_ids items = Inr ids'"
    by (rule bulk_operation_ids_Cons)
  from x obtain d where d: "x = PyDict d" "map_of d ''id'' = Some (PyInt i)"
    by (rule bulk_operation_id_item)
  from Cons.IH [OF rest, of "m(PyInt i \<mapsto> PyDict (dict_pop ''id'' d))"] d
  show ?case by (simp del: fun_upd_apply)
qed

lemma bulk_operation_ids_insert:
  assumes "bulk_operation_id item = Some i"
  shows "(case bulk_operation_ids (xs @ ys) of
            Inl e \<Rightarrow> bulk_operation_ids (xs @ item # ys) = Inl e
          | Inr ids \<Rightarrow> (\<exists>ids'. bulk_operation_ids (xs @ item # ys) = Inr ids'
                          \<and> set ids' = insert i (set ids)))"
proof (induction xs)
  case Nil
  show ?case
  proof (cases "bulk_operation_ids ys")
    case (Inl e)
    with assms show ?thesis by simp
  next
    case (Inr ids)
    with assms show ?thesis by simp
  qed
next
  case (Cons x xs)
  show ?case
  proof (cases "bulk_operation_id x")
    case None
    then show ?thesis by simp
  next
    case (Some j)
    show ?thesis
    proof (cases "bulk_operation_ids (xs @ ys)")
      case (Inl e)
      with Cons.IH have "bulk_operation_ids (xs @ item # ys) = Inl e" by simp
      with Inl Some show ?thesis by simp
    next
      case (Inr ids)
      with Cons.IH obtain ids' where
        "bulk_operation_ids (xs @ item # ys) = Inr ids'" "set ids' = insert i (set ids)"
        by auto
      with Inr Some show ?thesis by auto
    qed
  qed
qed

lemma filter_pk_in_unmatched:
  assumes "i \<notin> set (map (pk v) qs)" "set ids' = insert i (set ids)"
  shows "filter_pk_in v ids' qs = filter_pk_in v ids qs"
  unfolding filter_pk_in_def using assms by (intro filter_cong) auto

lemma filter_pk_in_none:
  assumes "\<forall>i\<in>set ids. i \<notin> set (map (pk v) qs)"
  shows "filter_pk_in v ids qs = []"
  unfolding filter_pk_in_def using assms by (auto simp: filter_empty_conv)

lemma filter_pk_in_pk: "obj \<in> set (filter_pk_in v ids qs) \<Longrightarrow> pk v obj \<in> set (map (pk v) qs)"
  by (auto simp: filter_pk_in_def)

lemma bulk_update_unmatched:
  assumes item: "bulk_operation_id item = Some i"
      and un: "i \<notin> set (map (pk v) (self_get_queryset v db))"
  shows "bulk_update v (req\<lparr>data := PyList (xs @ item # ys)\<rparr>) partial db
           = bulk_update v (req\<lparr>data := PyList (xs @ ys)\<rparr>) partial db"
proof (cases "bulk_operation_ids (xs @ ys)")
  case (Inl e)
  with bulk_operation_ids_insert [OF item, of xs ys]
  show ?thesis by (simp add: bulk_update_def BulkOperationSerializer_def)
next
  case (Inr ids)
  with bulk_operation_ids_insert [OF item, of xs ys] obtain ids' where
    ids': "bulk_operation_ids (xs @ item # ys) = Inr ids'" "set ids' = insert i (set ids)"
    by auto
  from map_update_data_valid [OF Inr] obtain r where
    r: "map_update_data (xs @ ys) Map.empty = Inr r" by blast
  with map_update_data_insert [OF item, of xs ys Map.empty] obtain r' where
    r': "map_update_data (xs @ item # ys) Map.empty = Inr r'"
        "\<forall>k. k \<noteq> PyInt i \<longrightarrow> r k = r' k"
    by auto
  let ?objs = "filter_pk_in v ids (self_get_queryset v db)"
  have f: "filter_pk_in v ids' (self_get_queryset v db) = ?objs"
    using un ids'(2) by (rule filter_pk_in_unmatched)
  have "\<forall>obj\<in>set ?objs. update_data_get r' (pk v obj) = update_data_get r (pk v obj)"
  proof
    fix obj assume "obj \<in> set ?objs"
    then have "pk v obj \<noteq> i" using un filter_pk_in_pk by fastforce
    then show "update_data_get r' (pk v obj) = update_data_get r (pk v obj)"
      using r'(2) by (simp add: update_data_get_def)
  qed
  then have "bulk_update_loop v r' partial ?objs [] db = bulk_update_loop v r partial ?objs [] db"
    by (rule bulk_update_loop_cong)
  then show ?thesis
    using Inr ids'(1) r r'(1) f
    by (simp add: bulk_update_def BulkOperationSerializer_def request_items_def
        perform_bulk_update_def atomic_def get_bulk_update_queryset_def)
qed

lemma bulk_destroy_unmatched:
  assumes item: "bulk_operation_id item = Some i"
      and un: "i \<notin> set (map (pk v) (self_get_queryset v db))"
  shows "bulk_destroy v (req\<lparr>data := PyList (xs @ item # ys)\<rparr>) db
           = bulk_destroy v (req\<lparr>data := PyList (xs @ ys)\<rparr>) db"
proof (cases "bulk_operation_ids (xs @ ys)")
  case (Inl e)
  with bulk_operation_ids_insert [OF item, of xs ys]
  show ?thesis by (simp add: bulk_destroy_def BulkOperationSerializer_def)
next
  case (Inr ids)
  with bulk_operation_ids_insert [OF item, of xs ys] obtain ids' where
    ids': "bulk_operation_ids (xs @ item # ys) = Inr ids'" "set ids' = insert i (set ids)"
    by auto
  have f: "filter_pk_in v ids' (self_get_queryset v db)
             = filter_pk_in v ids (self_get_queryset v db)"
    using un ids'(2) by (rule filter_pk_in_unmatched)
  show ?thesis
    using Inr ids'(1) f
    by (simp add: bulk_destroy_def BulkOperationSerializer_def perform_bulk_destroy_def
        atomic_def get_bulk_destroy_queryset_def)
qed

lemma bulk_none_matched:
  assumes ids: "BulkOperationSerializer (data req) = Inr ids"
      and un: "\<forall>i\<in>set ids. i \<notin> set (map (pk v) (self_get_queryset v db))"
  shows "bulk_update v req partial db = (Inr (Response (Array []) HTTP_200_OK None), db)"
    and "bulk_destroy v req db = (Inr (Response NoBody HTTP_204_NO_CONTENT None), db)"
proof -
  from ids obtain items where items: "data req = PyList items" "bulk_operation_ids items = Inr ids"
    by (cases "data req") (auto simp: BulkOperationSerializer_def)
  from map_update_data_valid [OF items(2)] obtain r where
    r: "map_update_data items Map.empty = Inr r" by blast
  have f: "filter_pk_in v ids (self_get_queryset v db) = []"
    using un by (rule filter_pk_in_none)
  show "bulk_update v req partial db = (Inr (Response (Array []) HTTP_200_OK None), db)"
    using ids items r f
    by (simp add: bulk_update_def request_items_def perform_bulk_update_def atomic_def
        get_bulk_update_queryset_def)
  show "bulk_destroy v req db = (Inr (Response NoBody HTTP_204_NO_CONTENT None), db)"
    using ids f
    by (simp add: bulk_destroy_def perform_bulk_destroy_def atomic_def
        get_bulk_destroy_queryset_def)
qed

text \<open>
  C8: an item of a bulk-update or bulk-destroy payload whose id matches no object of the
  view's queryset raises nothing and changes nothing: the request returns the response
  and leaves the database of the same request without that item. A payload none of whose
  ids is matched returns 200 with an empty array, or 204, and the database untouched.
\<close>

theorem bulk_unmatched_ids_omitted:
  "(bulk_operation_id item = Some i \<and> i \<notin> set (map (pk v) (self_get_queryset v db)) \<longrightarrow>
      bulk_update v (req\<lparr>data := PyList (xs @ item # ys)\<rparr>) partial db
        = bulk_update v (req\<lparr>data := PyList (xs @ ys)\<rparr>) partial db
    \<and> bulk_destroy v (req\<lparr>data := PyList (xs @ item # ys)\<rparr>) db
        = bulk_destroy v (req\<lparr>data := PyList (xs @ ys)\<rparr>) db)
   \<and> (BulkOperationSerializer (data req) = Inr ids
        \<and> (\<forall>i\<in>set ids. i \<notin> set (map (pk v) (self_get_queryset v db))) \<longrightarrow>
      bulk_update v req partial db = (Inr (Response (Array []) HTTP_200_OK None), db)
    \<and> bulk_destroy v req db = (Inr (Response NoBody HTTP_204_NO_CONTENT None), db))"
proof -
  have a: "bulk_update v (req\<lparr>data := PyList (xs @ item # ys)\<rparr>) partial db
             = bulk_update v (req\<lparr>data := PyList (xs @ ys)\<rparr>) partial db"
          "bulk_destroy v (req\<lparr>data := PyList (xs @ item # ys)\<rparr>) db
             = bulk_destroy v (req\<lparr>data := PyList (xs @ ys)\<rparr>) db"
    if "bulk_operation_id item = Some i" "i \<notin> set (map (pk v) (self_get_queryset v db))"
    using that by (rule bulk_update_unmatched, rule bulk_destroy_unmatched)
  have b: "bulk_update v req partial db = (Inr (Response (Array []) HTTP_200_OK None), db)"
          "bulk_destroy v req db = (Inr (Response NoBody HTTP_204_NO_CONTENT None), db)"
    if "BulkOperationSerializer (data req) = Inr ids"
       "\<forall>i\<in>set ids. i \<notin> set (map (pk v) (self_get_queryset v db))"
    using that by (rule bulk_none_matched)+
  from a b show ?thesis by blast
qed

theorem bulk_unmatched_ids_omitted_witness:
  "bulk_update sites (rename_request [(1, ''x''), (7, ''y''), (2, ''z'')]) True sites_table
     = (Inr (Response (Array [[(''id'', PyInt 1), (''name'', PyStr ''x'')],
                              [(''id'', PyInt 2), (''name'', PyStr ''z'')]]) 200 None),
        [(1, ''x''), (2, ''z'')])
   \<and> bulk_update sites (rename_request [(7, ''y''), (9, ''w'')]) True sites_table
     = (Inr (Response (Array []) 200 None), sites_table)
   \<and> bulk_destroy sites (rename_request [(7, ''y''), (9, ''w'')]) sites_table
     = (Inr (Response NoBody 204 None), sites_table)"
proof -
  let ?item = "PyDict [(''id'', PyInt 7), (''name'', PyStr ''y'')]"
  let ?x = "PyDict [(''id'', PyInt 1), (''name'', PyStr ''x'')]"
  let ?z = "PyDict [(''id'', PyInt 2), (''name'', PyStr ''z'')]"
  let ?req = "rename_request []"
  have i: "bulk_operation_id ?item = Some 7" by simp
  have u: "7 \<notin> set (map (pk sites) (self_get_queryset sites sites_table))"
          "9 \<notin> set (map (pk sites) (self_get_queryset sites sites_table))"
    by (simp_all add: sites_def sites_table_def)
  have e: "rename_request [(1, ''x''), (7, ''y''), (2, ''z'')]
             = ?req\<lparr>data := PyList ([?x] @ ?item # [?z])\<rparr>"
    by (simp add: rename_request_def)
  have without: "bulk_update sites (?req\<lparr>data := PyList ([?x] @ [?z])\<rparr>) True sites_table
     = (Inr (Response (Array [[(''id'', PyInt 1), (''name'', PyStr ''x'')],
                              [(''id'', PyInt 2), (''name'', PyStr ''z'')]]) 200 None),
        [(1, ''x''), (2, ''z'')])"
    by (simp add: bulk_update_def rename_request_def BulkOperationSerializer_def
        request_items_def perform_bulk_update_def atomic_def filter_pk_in_def
        get_bulk_update_queryset_def dict_pop_def sites_table_def sites_def
        update_data_get_def take_snapshot_def site_name_def Let_def HTTP_200_OK_def)
  have ids: "BulkOperationSerializer (data (rename_request [(7, ''y''), (9, ''w'')])) = Inr [7, 9]"
    by (simp add: rename_request_def BulkOperationSerializer_def)
  from bulk_unmatched_ids_omitted
         [where item = ?item and i = 7 and v = sites and db = sites_table and req = ?req
            and xs = "[?x]" and ys = "[?z]" and partial = True and ids = "[7, 9]"] i u(1)
  have "bulk_update sites (?req\<lparr>data := PyList ([?x] @ ?item # [?z])\<rparr>) True sites_table
          = bulk_update sites (?req\<lparr>data := PyList ([?x] @ [?z])\<rparr>) True sites_table"
    by blast
  with without e have a: "bulk_update sites (rename_request [(1, ''x''), (7, ''y''), (2, ''z'')])
      True sites_table
     = (Inr (Response (Array [[(''id'', PyInt 1), (''name'', PyStr ''x'')],
                              [(''id'', PyInt 2), (''name'', PyStr ''z'')]]) 200 None),
        [(1, ''x''), (2, ''z'')])"
    by simp
  from bulk_unmatched_ids_omitted
         [where item = ?item and i = 7 and v = sites and db = sites_table
            and req = "rename_request [(7, ''y''), (9, ''w'')]" and xs = "[]" and ys = "[]"
            and partial = True and ids = "[7, 9]"] ids u
  have "bulk_update sites (rename_request [(7, ''y''), (9, ''w'')]) True sites_table
          = (Inr (Response (Array []) HTTP_200_OK None), sites_table)
      \<and> bulk_destroy sites (rename_request [(7, ''y''), (9, ''w'')]) sites_table
          = (Inr (Response NoBody HTTP_204_NO_CONTENT None), sites_table)"
    by simp
  with a show ?thesis by (simp add: HTTP_200_OK_def HTTP_204_NO_CONTENT_def)
qed

text \<open>
  C2, as stated, fails: the payload with the ids 2, 7, 1 is valid, the response has two
  representations for its three ids, and the first of them carries the id 1.
\<close>

theorem bulk_update_order_counterexample:
  "BulkOperationSerializer (data (rename_request [(2, ''x''), (7, ''y''), (1, ''z'')]))
     = Inr [2, 7, 1]
   \<and> bulk_update sites (rename_request [(2, ''x''), (7, ''y''), (1, ''z'')]) True sites_table
     = (Inr (Response (Array [[(''id'', PyInt 1), (''name'', PyStr ''z'')],
                              [(''id'', PyInt 2), (''name'', PyStr ''x'')]]) 200 None),
        [(1, ''z''), (2, ''x'')])"
  by (simp add: bulk_update_def rename_request_def BulkOperationSerializer_def
      request_items_def perform_bulk_update_def atomic_def filter_pk_in_def
      get_bulk_update_queryset_def dict_pop_def sites_table_def sites_def
      update_data_get_def take_snapshot_def site_name_def Let_def HTTP_200_OK_def)

lemma bulk_update_loop_chain:
  assumes "bulk_update_loop v u partial objs data_list db = (Inr reps, db')"
  shows "\<exists>new dbs insts.
           reps = data_list @ new
         \<and> length new = length objs \<and> length insts = length objs
         \<and> length dbs = Suc (length objs)
         \<and> dbs ! 0 = db \<and> dbs ! length objs = db'
         \<and> (\<forall>k<length objs.
               is_valid v (dbs ! k) (Some (take_snapshot v (objs ! k)))
                 (update_data_get u (pk v (objs ! k))) partial
             \<and> perform_update v (dbs ! k) (take_snapshot v (objs ! k))
                 (update_data_get u (pk v (objs ! k))) partial
                 = (Inr (insts ! k), dbs ! Suc k)
             \<and> new ! k = serializer_data v (dbs ! Suc k) (insts ! k))"
  using assms
proof (induction objs arbitrary: data_list db)
  case Nil
  then have "reps = data_list" "db' = db" by simp_all
  then show ?case
    by (intro exI [of _ "[]"] exI [of _ "[db]"]) simp
next
  case (Cons obj objs)
  let ?d = "update_data_get u (pk v obj)"
  let ?o = "take_snapshot v obj"
  from Cons.prems have valid: "is_valid v db (Some ?o) ?d partial"
    by (simp add: Let_def split: if_splits)
  obtain r dbn where pu: "perform_update v db ?o ?d partial = (r, dbn)"
    by (cases "perform_update v db ?o ?d partial")
  from Cons.prems valid pu obtain inst where r: "r = Inr inst"
    by (cases r) (auto simp: Let_def)
  let ?rep = "serializer_data v dbn inst"
  from Cons.prems valid pu r
  have rest: "bulk_update_loop v u partial objs (data_list @ [?rep]) dbn = (Inr reps, db')"
    by (simp add: Let_def)
  from Cons.IH [OF rest] obtain new dbs insts where ih:
    "reps = (data_list @ [?rep]) @ new"
    "length new = length objs" "length insts = length objs"
    "length dbs = Suc (length objs)"
    "dbs ! 0 = dbn" "dbs ! length objs = db'"
    "\<forall>k<length objs.
        is_valid v (dbs ! k) (Some (take_snapshot v (objs ! k)))
          (update_data_get u (pk v (objs ! k))) partial
      \<and> perform_update v (dbs ! k) (take_snapshot v (objs ! k))
          (update_data_get u (pk v (objs ! k))) partial
          = (Inr (insts ! k), dbs ! Suc k)
      \<and> new ! k = serializer_data v (dbs ! Suc k) (insts ! k)"
    by blast
  let ?new = "?rep # new" and ?dbs = "db # dbs" and ?insts = "inst # insts"
  have step: "is_valid v (?dbs ! k) (Some (take_snapshot v ((obj # objs) ! k)))
          (update_data_get u (pk v ((obj # objs) ! k))) partial
      \<and> perform_update v (?dbs ! k) (take_snapshot v ((obj # objs) ! k))
          (update_data_get u (pk v ((obj # objs) ! k))) partial
          = (Inr (?insts ! k), ?dbs ! Suc k)
      \<and> ?new ! k = serializer_data v (?dbs ! Suc k) (?insts ! k)"
    if "k < length (obj # objs)" for k
  proof (cases k)
    case 0
    then show ?thesis using valid pu r ih(5) by simp
  next
    case (Suc j)
    with that have "j < length objs" by simp
    with ih(7) Suc show ?thesis by simp
  qed
  have "reps = data_list @ ?new" using ih(1) by simp
  moreover have "length ?new = length (obj # objs)" "length ?insts = length (obj # objs)"
    "length ?dbs = Suc (length (obj # objs))" using ih(2,3,4) by simp_all
  moreover have "?dbs ! 0 = db" "?dbs ! length (obj # objs) = db'" using ih(6) by simp_all
  ultimately show ?case using step by blast
qed

lemma bulk_update_loop_succeeds:
  assumes "length states = Suc (length objs)" "length updated = length objs"
      and "states ! 0 = db"
      and "\<forall>k<length objs.
             is_valid v (states ! k) (Some (take_snapshot v (objs ! k)))
               (update_data_get u (pk v (objs ! k))) partial
           \<and> perform_update v (states ! k) (take_snapshot v (objs ! k))
               (update_data_get u (pk v (objs ! k))) partial
               = (Inr (updated ! k), states ! Suc k)"
  shows "bulk_update_loop v u partial objs data_list db =
           (Inr (data_list
                   @ map (\<lambda>k. serializer_data v (states ! Suc k) (updated ! k))
                       [0..<length objs]),
            states ! length objs)"
  using assms
proof (induction objs arbitrary: states updated data_list db)
  case Nil
  then show ?case by simp
next
  case (Cons obj objs)
  from Cons.prems(1) obtain db0 states' where
    st: "states = db0 # states'" "length states' = Suc (length objs)"
    by (cases states) auto
  from Cons.prems(2) obtain c updated' where
    up: "updated = c # updated'" "length updated' = length objs"
    by (cases updated) auto
  from Cons.prems(3) st have db0: "db0 = db" by simp
  let ?d = "update_data_get u (pk v obj)"
  let ?o = "take_snapshot v obj"
  from Cons.prems(4) [rule_format, of 0] st up db0
  have first: "is_valid v db (Some ?o) ?d partial"
    "perform_update v db ?o ?d partial = (Inr c, states' ! 0)"
    by simp_all
  let ?rep = "serializer_data v (states' ! 0) c"
  have chain: "\<forall>k<length objs.
             is_valid v (states' ! k) (Some (take_snapshot v (objs ! k)))
               (update_data_get u (pk v (objs ! k))) partial
           \<and> perform_update v (states' ! k) (take_snapshot v (objs ! k))
               (update_data_get u (pk v (objs ! k))) partial
               = (Inr (updated' ! k), states' ! Suc k)"
  proof (intro allI impI)
    fix k assume "k < length objs"
    then have "Suc k < length (obj # objs)" by simp
    from Cons.prems(4) [rule_format, OF this] st up
    show "is_valid v (states' ! k) (Some (take_snapshot v (objs ! k)))
               (update_data_get u (pk v (objs ! k))) partial
           \<and> perform_update v (states' ! k) (take_snapshot v (objs ! k))
               (update_data_get u (pk v (objs ! k))) partial
               = (Inr (updated' ! k), states' ! Suc k)"
      by simp
  qed
  have ih: "bulk_update_loop v u partial objs (data_list @ [?rep]) (states' ! 0) =
           (Inr ((data_list @ [?rep])
                   @ map (\<lambda>k. serializer_data v (states' ! Suc k) (updated' ! k))
                       [0..<length objs]),
            states' ! length objs)"
    by (rule Cons.IH [OF st(2) up(2) refl chain])
  have reps: "map (\<lambda>k. serializer_data v (states ! Suc k) (updated ! k)) [0..<length (obj # objs)]
                = ?rep # map (\<lambda>k. serializer_data v (states' ! Suc k) (updated' ! k))
                          [0..<length objs]"
    using st up by (simp add: map_upt_Suc del: upt_Suc)
  have "bulk_update_loop v u partial (obj # objs) data_list db
          = bulk_update_loop v u partial objs (data_list @ [?rep]) (states' ! 0)"
    using first by (simp add: Let_def)
  also note ih
  finally show ?case
    unfolding reps using st by simp
qed

text \<open>
  C2, amended. A bulk update that succeeds returns 200 with exactly one representation
  for each object of the view's queryset whose id occurs in the payload, in the order of
  the queryset: the k-th representation is the serializer data of the k-th such object
  after its update, made on the database that the updates before it left. With the rows
  of the queryset having distinct ids there are at most as many representations as ids
  in the payload. The mixin puts no id into a representation: provided the serializer of
  the host viewset makes every representation carry the id of the object it was made
  from, the ids of the representations are the ids of those objects in the order of the
  queryset, so that the count equals the number of ids in the payload and the i-th
  representation carries the i-th id when the payload lists exactly the matched ids in
  the order of the queryset. Conversely, when the payload is valid and every matched
  object is valid on, and updated without an error from, the database that the updates
  before it leave (\<open>states\<close>), the update does return 200 with those representations.
\<close>

theorem bulk_update_representations:
  "(bulk_update v req partial db = (Inr resp, db') \<longrightarrow>
      (\<exists>ids u reps dbs insts.
          BulkOperationSerializer (data req) = Inr ids
        \<and> map_update_data (request_items req) Map.empty = Inr u
        \<and> status resp = HTTP_200_OK \<and> body resp = Array reps
        \<and> length reps = length (filter_pk_in v ids (self_get_queryset v db))
        \<and> length insts = length reps \<and> length dbs = Suc (length reps)
        \<and> dbs ! 0 = db \<and> dbs ! length reps = db'
        \<and> (\<forall>k<length reps.
              perform_update v (dbs ! k)
                (take_snapshot v (filter_pk_in v ids (self_get_queryset v db) ! k))
                (update_data_get u (pk v (filter_pk_in v ids (self_get_queryset v db) ! k)))
                partial
                = (Inr (insts ! k), dbs ! Suc k)
            \<and> reps ! k = serializer_data v (dbs ! Suc k) (insts ! k))
        \<and> (distinct (map (pk v) (self_get_queryset v db)) \<longrightarrow> length reps \<le> length ids)
        \<and> ((\<forall>db obj d inst db'.
               perform_update v db (take_snapshot v obj) d partial = (Inr inst, db') \<longrightarrow>
               rep_id (serializer_data v db' inst) = pk v obj) \<longrightarrow>
             map rep_id reps = map (pk v) (filter_pk_in v ids (self_get_queryset v db))
           \<and> (map (pk v) (filter_pk_in v ids (self_get_queryset v db)) = ids \<longrightarrow>
                length reps = length ids \<and> (\<forall>i<length ids. rep_id (reps ! i) = ids ! i)))))
   \<and> (BulkOperationSerializer (data req) = Inr payload_ids
        \<and> map_update_data (request_items req) Map.empty = Inr update_data
        \<and> objs = filter_pk_in v payload_ids (self_get_queryset v db)
        \<and> length states = Suc (length objs) \<and> length updated = length objs
        \<and> states ! 0 = db
        \<and> (\<forall>k<length objs.
              is_valid v (states ! k) (Some (take_snapshot v (objs ! k)))
                (update_data_get update_data (pk v (objs ! k))) partial
            \<and> perform_update v (states ! k) (take_snapshot v (objs ! k))
                (update_data_get update_data (pk v (objs ! k))) partial
                = (Inr (updated ! k), states ! Suc k)) \<longrightarrow>
      bulk_update v req partial db =
        (Inr (Response
               (Array (map (\<lambda>k. serializer_data v (states ! Suc k) (updated ! k))
                         [0..<length objs]))
               HTTP_200_OK None),
         states ! length objs))"
proof -
  have returned: "\<exists>ids u reps dbs insts.
          BulkOperationSerializer (data req) = Inr ids
        \<and> map_update_data (request_items req) Map.empty = Inr u
        \<and> status resp = HTTP_200_OK \<and> body resp = Array reps
        \<and> length reps = length (filter_pk_in v ids (self_get_queryset v db))
        \<and> length insts = length reps \<and> length dbs = Suc (length reps)
        \<and> dbs ! 0 = db \<and> dbs ! length reps = db'
        \<and> (\<forall>k<length reps.
              perform_update v (dbs ! k)
                (take_snapshot v (filter_pk_in v ids (self_get_queryset v db) ! k))
                (update_data_get u (pk v (filter_pk_in v ids (self_get_queryset v db) ! k)))
                partial
                = (Inr (insts ! k), dbs ! Suc k)
            \<and> reps ! k = serializer_data v (dbs ! Suc k) (insts ! k))
        \<and> (distinct (map (pk v) (self_get_queryset v db)) \<longrightarrow> length reps \<le> length ids)
        \<and> ((\<forall>db obj d inst db'.
               perform_update v db (take_snapshot v obj) d partial = (Inr inst, db') \<longrightarrow>
               rep_id (serializer_data v db' inst) = pk v obj) \<longrightarrow>
             map rep_id reps = map (pk v) (filter_pk_in v ids (self_get_queryset v db))
           \<and> (map (pk v) (filter_pk_in v ids (self_get_queryset v db)) = ids \<longrightarrow>
                length reps = length ids \<and> (\<forall>i<length ids. rep_id (reps ! i) = ids ! i)))"
    if b: "bulk_update v req partial db = (Inr resp, db')"
  proof -
    from b obtain ids where ids: "BulkOperationSerializer (data req) = Inr ids"
      by (cases "BulkOperationSerializer (data req)") (auto simp: bulk_update_def)
    from b ids obtain u where u: "map_update_data (request_items req) Map.empty = Inr u"
      by (cases "map_update_data (request_items req) Map.empty") (auto simp: bulk_update_def)
    let ?objs = "filter_pk_in v ids (self_get_queryset v db)"
    obtain r dbl where l: "bulk_update_loop v u partial ?objs [] db = (r, dbl)"
      by (cases "bulk_update_loop v u partial ?objs [] db")
    from b ids u l obtain reps where
      r: "r = Inr reps" and resp: "resp = Response (Array reps) HTTP_200_OK None"
      and dbl: "dbl = db'"
      by (cases r)
        (auto simp: bulk_update_def perform_bulk_update_def atomic_def
          get_bulk_update_queryset_def)
    from bulk_update_loop_chain [OF l [unfolded r]] dbl obtain dbs insts where ch:
      "length reps = length ?objs" "length insts = length ?objs"
      "length dbs = Suc (length ?objs)" "dbs ! 0 = db" "dbs ! length ?objs = db'"
      "\<forall>k<length ?objs.
          is_valid v (dbs ! k) (Some (take_snapshot v (?objs ! k)))
            (update_data_get u (pk v (?objs ! k))) partial
        \<and> perform_update v (dbs ! k) (take_snapshot v (?objs ! k))
            (update_data_get u (pk v (?objs ! k))) partial
            = (Inr (insts ! k), dbs ! Suc k)
        \<and> reps ! k = serializer_data v (dbs ! Suc k) (insts ! k)"
      by auto
    have bound: "length reps \<le> length ids" if "distinct (map (pk v) (self_get_queryset v db))"
    proof -
      have "length ?objs = card (set ids \<inter> set (map (pk v) (self_get_queryset v db)))"
        unfolding filter_pk_in_def by (rule conforming_count_card [OF that])
      also have "\<dots> \<le> card (set ids)" by (simp add: card_mono)
      also have "\<dots> \<le> length ids" by (rule card_length)
      finally show ?thesis using ch(1) by simp
    qed
    have idpart: "map rep_id reps = map (pk v) ?objs
           \<and> (map (pk v) ?objs = ids \<longrightarrow>
                length reps = length ids \<and> (\<forall>i<length ids. rep_id (reps ! i) = ids ! i))"
      if h: "\<forall>db obj d inst db'.
               perform_update v db (take_snapshot v obj) d partial = (Inr inst, db') \<longrightarrow>
               rep_id (serializer_data v db' inst) = pk v obj"
    proof -
      from bulk_update_loop_ids [OF h l [unfolded r]]
      have m: "map rep_id reps = map (pk v) ?objs" by simp
      have "length reps = length ids \<and> (\<forall>i<length ids. rep_id (reps ! i) = ids ! i)"
        if "map (pk v) ?objs = ids"
      proof -
        from m that have e: "map rep_id reps = ids" by simp
        then have len: "length reps = length ids" using length_map [of rep_id reps] by simp
        moreover have "rep_id (reps ! i) = ids ! i" if "i < length ids" for i
          using e that len nth_map [of i reps rep_id] by simp
        ultimately show ?thesis by blast
      qed
      with m show ?thesis by blast
    qed
    have steps: "\<forall>k<length reps.
              perform_update v (dbs ! k) (take_snapshot v (?objs ! k))
                (update_data_get u (pk v (?objs ! k))) partial
                = (Inr (insts ! k), dbs ! Suc k)
            \<and> reps ! k = serializer_data v (dbs ! Suc k) (insts ! k)"
      using ch(1,6) by simp
    have "status resp = HTTP_200_OK" "body resp = Array reps" using resp by simp_all
    moreover have "length insts = length reps" "length dbs = Suc (length reps)"
      "dbs ! length reps = db'"
      using ch(1,2,3,5) by simp_all
    ultimately show ?thesis
      using ids u ch(1,4) steps bound idpart by blast
  qed
  have succeeds: "bulk_update v req partial db =
        (Inr (Response
               (Array (map (\<lambda>k. serializer_data v (states ! Suc k) (updated ! k))
                         [0..<length objs]))
               HTTP_200_OK None),
         states ! length objs)"
    if "BulkOperationSerializer (data req) = Inr payload_ids"
       "map_update_data (request_items req) Map.empty = Inr update_data"
       "objs = filter_pk_in v payload_ids (self_get_queryset v db)"
       "length states = Suc (length objs)" "length updated = length objs"
       "states ! 0 = db"
       "\<forall>k<length objs.
              is_valid v (states ! k) (Some (take_snapshot v (objs ! k)))
                (update_data_get update_data (pk v (objs ! k))) partial
            \<and> perform_update v (states ! k) (take_snapshot v (objs ! k))
                (update_data_get update_data (pk v (objs ! k))) partial
                = (Inr (updated ! k), states ! Suc k)"
    using bulk_update_loop_succeeds [OF that(4,5,6,7), of "[]"] that(1,2,3)
    by (simp add: bulk_update_def perform_bulk_update_def atomic_def
        get_bulk_update_queryset_def)
  from returned succeeds show ?thesis by blast
qed

theorem bulk_update_representations_witness:
  "bulk_update sites (rename_request [(1, ''x''), (2, ''z'')]) True sites_table
     = (Inr (Response (Array [[(''id'', PyInt 1), (''name'', PyStr ''x'')],
                              [(''id'', PyInt 2), (''name'', PyStr ''z'')]]) 200 None),
        [(1, ''x''), (2, ''z'')])
   \<and> map representation_id [[(''id'', PyInt 1), (''name'', PyStr ''x'')],
                              [(''id'', PyInt 2), (''name'', PyStr ''z'')]] = [1, 2]"
proof -
  let ?req = "rename_request [(1, ''x''), (2, ''z'')]"
  let ?reps = "[[(''id'', PyInt 1), (''name'', PyStr ''x'')],
                [(''id'', PyInt 2), (''name'', PyStr ''z'')]]"
  let ?u = "Map.empty(PyInt 1 \<mapsto> PyDict [(''name'', PyStr ''x'')],
                      PyInt 2 \<mapsto> PyDict [(''name'', PyStr ''z'')])"
  let ?states = "[sites_table, [(1, ''x''), (2, ''b'')], [(1, ''x''), (2, ''z'')]]"
  let ?updated = "[(1, ''x''), (2, ''z'')] :: site list"
  have h: "\<forall>db obj d inst db'.
             perform_update sites db (take_snapshot sites obj) d True = (Inr inst, db') \<longrightarrow>
             representation_id (serializer_data sites db' inst) = pk sites obj"
    by (auto simp: sites_def take_snapshot_def representation_id_def split: option.splits)
  have ids: "BulkOperationSerializer (data ?req) = Inr [1, 2]"
    by (simp add: rename_request_def BulkOperationSerializer_def)
  have u: "map_update_data (request_items ?req) Map.empty = Inr ?u"
    by (simp add: rename_request_def request_items_def dict_pop_def)
  have q: "filter_pk_in sites [1, 2] (self_get_queryset sites sites_table) = sites_table"
    by (simp add: filter_pk_in_def sites_def sites_table_def)
  have chain: "\<forall>k<length sites_table.
              is_valid sites (?states ! k) (Some (take_snapshot sites (sites_table ! k)))
                (update_data_get ?u (pk sites (sites_table ! k))) True
            \<and> perform_update sites (?states ! k) (take_snapshot sites (sites_table ! k))
                (update_data_get ?u (pk sites (sites_table ! k))) True
                = (Inr (?updated ! k), ?states ! Suc k)"
    by (simp add: less_Suc_eq sites_def sites_table_def site_name_def take_snapshot_def
        update_data_get_def)
  have up: "[0..<length sites_table] = [0, Suc 0]"
    by (simp add: sites_table_def upt_rec)
  have len: "length ?states = Suc (length sites_table)" "length ?updated = length sites_table"
    by (simp_all add: sites_table_def)
  from bulk_update_representations
         [where v = sites and req = ?req and partial = True and db = sites_table
            and payload_ids = "[1, 2]" and update_data = ?u and objs = sites_table
            and states = ?states and updated = ?updated] ids u q chain len
  have "bulk_update sites ?req True sites_table =
        (Inr (Response
               (Array (map (\<lambda>k. serializer_data sites (?states ! Suc k) (?updated ! k))
                         [0..<length sites_table]))
               HTTP_200_OK None),
         ?states ! length sites_table)"
    by simp
  then have b: "bulk_update sites ?req True sites_table
     = (Inr (Response (Array ?reps) HTTP_200_OK None), [(1, ''x''), (2, ''z'')])"
    unfolding up by (simp add: sites_def sites_table_def)
  note returned = bulk_update_representations
         [where v = sites and req = ?req and partial = True and db = sites_table
            and resp = "Response (Array ?reps) HTTP_200_OK None"
            and db' = "[(1, ''x''), (2, ''z'')]" and rep_id = representation_id,
          THEN conjunct1, rule_format, OF b]
  from returned h obtain ids' reps' where r:
    "BulkOperationSerializer (data ?req) = Inr ids'"
    "body (Response (Array ?reps) HTTP_200_OK None) = Array reps'"
    "map representation_id reps'
       = map (pk sites) (filter_pk_in sites ids' (self_get_queryset sites sites_table))"
    by (elim exE conjE) auto
  from r(1) ids have "ids' = [1, 2]" by simp
  moreover from r(2) have "reps' = ?reps" by simp
  ultimately have "map representation_id ?reps = map (pk sites) sites_table"
    using r(3) q by simp
  then have "map representation_id ?reps = [1, 2]"
    by (simp add: sites_def sites_table_def)
  with b show ?thesis by (simp add: HTTP_200_OK_def)
qed

end
